theory Spec2Isabelle
  imports Complex_Main
begin

section \<open>Data model of the alerting and notification service\<close>

text \<open>
  The service under study is the class \<open>AdvancedNotificationServiceClass\<close>: alert rules
  with cooldowns, message templates, and recurring scheduled notifications.

  Conventions of the embedding.
  \<^item> An instant is an \<open>int\<close>: the milliseconds since the epoch that \<open>Date.now()\<close> and
    \<open>Date.getTime()\<close> return. Fields that the source keeps as ISO strings of a \<open>Date\<close>
    (\<open>createdAt\<close>, \<open>lastTriggered\<close>, \<open>nextScheduled\<close>) hold the instant itself.
  \<^item> A JavaScript number that counts or is a calendar component is an \<open>int\<close>; a money
    amount is an exact rational (the rounding of binary floating point is not modelled).
  \<^item> An optional field \<open>f?: T\<close> is a \<open>T option\<close>.
  \<^item> A method that can throw returns \<open>error + 'a\<close>; a method that mutates the service
    returns the service it leaves behind together with its result, because a mutation
    made before a throw stays.
  \<^item> The answers of the collaborators outside the class (the contribution store, the
    delivery channels, the key-value storage, the operating system's scheduler, the clock)
    are parameters of the operation that asks for them.
\<close>

datatype rule_kind = Amount_threshold | Time_based | Member_activity | Goal_progress | Inactivity

datatype operator = Equals | Greater_than | Less_than | Contains | Between

datatype priority = Low | Medium | High | Critical

datatype action_kind = Whatsapp | Push | Email | Webhook

datatype schedule_kind = Daily | Weekly | Monthly | Custom

datatype template_kind = Contribution_t | Report_t | Alert_t | Reminder_t

datatype notification_kind = Daily_report | Weekly_summary | Monthly_report | Custom_alert

text \<open>The \<open>value: any\<close> of a condition: a number, a string, or a \<open>{min, max}\<close> range.\<close>

datatype cond_value = NumV rat | StrV string | RangeV rat rat

record AlertCondition =
  cond_field :: string
  cond_operator :: operator
  cond_value :: cond_value
  timeframe :: "rat option"

record AlertAction =
  action_type :: action_kind
  action_template :: string
  recipients :: "string list option"
  webhookUrl :: "string option"

record ScheduleConfig =
  sched_type :: schedule_kind
  sched_time :: string
  days :: "int list option"
  timezone :: string
  sched_enabled :: bool

record AlertRule =
  rule_id :: string
  rule_name :: string
  rule_enabled :: bool
  rule_type :: rule_kind
  conditions :: "AlertCondition list"
  actions :: "AlertAction list"
  rule_schedule :: "ScheduleConfig option"
  cooldown :: "int option"
  rule_priority :: priority
  rule_createdAt :: int
  lastTriggered :: "int option"

record NotificationTemplate =
  tmpl_id :: string
  tmpl_name :: string
  tmpl_type :: template_kind
  tmpl_subject :: string
  tmpl_body :: string
  tmpl_variables :: "string list"
  tmpl_createdAt :: int

record ScheduledNotification =
  notif_id :: string
  notif_type :: notification_kind
  notif_schedule :: ScheduleConfig
  notif_template :: string
  notif_recipients :: "string list"
  notif_enabled :: bool
  lastSent :: "int option"
  nextScheduled :: int

text \<open>The fields of a contribution record that the service reads.\<close>

record Contribution =
  amount :: rat
  memberId :: string
  memberName :: string

text \<open>What the service hands to a delivery channel.\<close>

datatype dispatch =
    WhatsAppAlert string string
  | PushNotification string string string priority
  | WebhookPost string string string priority int

text \<open>A request registered with the operating system's scheduler.\<close>

record os_request =
  req_title :: string
  req_scheduledId :: string
  req_type :: notification_kind
  req_date :: int

datatype error =
    NotFound string
  | PersistenceFailure
  | EvaluationFailure
  | DispatchFailure
  | SchedulerFailure
  | InvalidTime

text \<open>
  The service: its four private members, then the state of its collaborators that the
  service writes to (the three storage keys, the scheduler's registrations by identifier,
  and the messages the channels accepted, oldest first).
\<close>

record service =
  alertRules :: "AlertRule list"
  templates :: "NotificationTemplate list"
  scheduledNotifications :: "ScheduledNotification list"
  activeAlerts :: "string \<rightharpoonup> int"
  stored_alertRules :: "AlertRule list option"
  stored_templates :: "NotificationTemplate list option"
  stored_scheduled :: "ScheduledNotification list option"
  os_scheduled :: "string \<rightharpoonup> os_request"
  sent :: "dispatch list"

definition empty_service :: service where
  "empty_service =
     \<lparr>alertRules = [], templates = [], scheduledNotifications = [],
      activeAlerts = Map.empty, stored_alertRules = None, stored_templates = None,
      stored_scheduled = None, os_scheduled = Map.empty, sent = []\<rparr>"

section \<open>Rule evaluation\<close>

text \<open>
  \<open>evaluateCondition\<close> reads the contribution store and compares with JavaScript's
  coercions; its awaited answer for each condition is the parameter \<open>ev\<close> of
  \<open>shouldTriggerRule\<close> (\<open>Inl\<close> when it throws).
\<close>

fun check_conditions :: "(AlertCondition \<Rightarrow> error + bool) \<Rightarrow> AlertCondition list \<Rightarrow> error + bool" where
  "check_conditions ev [] = Inr True"
| "check_conditions ev (c # cs) =
     (case ev c of
        Inl e \<Rightarrow> Inl e
      | Inr b \<Rightarrow> if \<not> b then Inr False else check_conditions ev cs)"

text \<open>
  The cooldown test \<open>lastTriggered && rule.cooldown\<close> is one of truthiness: a recorded
  instant \<open>0\<close> and a cooldown of \<open>0\<close> minutes both skip it.
\<close>

definition in_cooldown :: "service \<Rightarrow> AlertRule \<Rightarrow> int \<Rightarrow> bool" where
  "in_cooldown s rule now =
     (case activeAlerts s (rule_id rule) of
        None \<Rightarrow> False
      | Some lastT \<Rightarrow>
          (case cooldown rule of
             None \<Rightarrow> False
           | Some c \<Rightarrow> lastT \<noteq> 0 \<and> c \<noteq> 0 \<and> now - lastT < c * 60 * 1000))"

definition shouldTriggerRule ::
  "service \<Rightarrow> AlertRule \<Rightarrow> int \<Rightarrow> (AlertCondition \<Rightarrow> error + bool) \<Rightarrow> error + bool" where
  "shouldTriggerRule s rule now ev =
     (if in_cooldown s rule now then Inr False
      else check_conditions ev (conditions rule))"

section \<open>Template rendering\<close>

subsection \<open>The JavaScript string operations used\<close>

text \<open>
  \<open>String.prototype.replace\<close> with a string as replacement expands the patterns of
  \<open>GetSubstitution\<close> in it: \<open>$$\<close> is a dollar sign, \<open>$&\<close> the matched text, \<open>$\<close> followed by
  a backquote the text before the match, \<open>$'\<close> the text after it. The regular expressions
  of \<open>processTemplate\<close> have no capture group, so that \<open>$1\<close> ... \<open>$99\<close> and \<open>$<\<close> stay as
  they are. The arguments: the matched text, the text before it, the text after it, the
  replacement.
\<close>

fun getSubstitution :: "string \<Rightarrow> string \<Rightarrow> string \<Rightarrow> string \<Rightarrow> string" where
  "getSubstitution matched pre post [] = []"
| "getSubstitution matched pre post [c] = [c]"
| "getSubstitution matched pre post (c # d # rest) =
     (if c = CHR ''$'' \<and> d = CHR ''$'' then CHR ''$'' # getSubstitution matched pre post rest
      else if c = CHR ''$'' \<and> d = CHR ''&'' then matched @ getSubstitution matched pre post rest
      else if c = CHR ''$'' \<and> d = CHR 0x60 then pre @ getSubstitution matched pre post rest
      else if c = CHR ''$'' \<and> d = CHR 0x27 then post @ getSubstitution matched pre post rest
      else c # getSubstitution matched pre post (d # rest))"

text \<open>
  \<open>message.replace(new RegExp(variable, 'g'), value)\<close> for a pattern that matches
  literally. Each of the six patterns of \<open>processTemplate\<close> does: without the \<open>u\<close> flag a
  brace that opens no quantifier is an ordinary character. The matches are found from left
  to right in the original string and do not overlap; \<open>pre\<close> is the part of the original
  string already passed.
\<close>

function replace_from :: "string \<Rightarrow> string \<Rightarrow> string \<Rightarrow> string \<Rightarrow> string" where
  "replace_from pat repl pre s =
     (if s = [] then []
      else if pat \<noteq> [] \<and> take (length pat) s = pat
      then getSubstitution pat pre (drop (length pat) s) repl
             @ replace_from pat repl (pre @ pat) (drop (length pat) s)
      else hd s # replace_from pat repl (pre @ [hd s]) (tl s))"
  by pat_completeness auto
termination
  by (relation "measure (\<lambda>(pat, repl, pre, s). length s)") auto

declare replace_from.simps [simp del]

definition replace_all :: "string \<Rightarrow> string \<Rightarrow> string \<Rightarrow> string" where
  "replace_all pat repl s = replace_from pat repl [] s"

text \<open>\<open>Number.prototype.toString\<close> of a natural number: its decimal digits.\<close>

function show_nat :: "nat \<Rightarrow> string" where
  "show_nat n =
     (if n < 10 then [''0123456789'' ! n]
      else show_nat (n div 10) @ [''0123456789'' ! (n mod 10)])"
  by pat_completeness auto
termination
  by (relation "measure (\<lambda>n. n)") auto

declare show_nat.simps [simp del]

text \<open>
  \<open>x.toFixed(2)\<close> for an amount below \<open>10\<^sup>2\<^sup>1\<close>: the integer \<open>n\<close> nearest to \<open>100 x\<close> (the
  larger one of two), written with at least three digits and a point before the last two;
  a negative amount is rendered from its absolute value after a minus sign.
\<close>

definition toFixed2 :: "rat \<Rightarrow> string" where
  "toFixed2 x =
     (let n = nat \<lfloor>\<bar>x\<bar> * 100 + 1 / 2\<rfloor>;
          ds = show_nat n;
          padded = replicate (3 - length ds) (CHR ''0'') @ ds
      in (if x < 0 then ''-'' else [])
           @ take (length padded - 2) padded @ ''.'' @ drop (length padded - 2) padded)"

subsection \<open>processTemplate\<close>

text \<open>
  What the world answers while one action is executed: the awaited result of
  \<open>ContributionService.getRecentContributions(24)\<close> (newest first, \<open>Inl\<close> when it throws),
  the text of \<open>new Date().toLocaleString()\<close>, the instant of \<open>new Date()\<close> in the webhook's
  payload, JavaScript's rendering of a number in a template literal, and whether the
  delivery channel's call throws.
\<close>

record action_env =
  recent :: "error + Contribution list"
  locale_now :: string
  iso_now :: int
  number_text :: "rat \<Rightarrow> string"
  channel_fails :: bool

definition variables :: "AlertRule \<Rightarrow> Contribution list \<Rightarrow> action_env \<Rightarrow> (string \<times> string) list" where
  "variables rule contributions env =
     [(''{rule_name}'', rule_name rule),
      (''{timestamp}'', locale_now env),
      (''{total_amount}'', toFixed2 (foldl (\<lambda>sum c. sum + amount c) 0 contributions)),
      (''{contribution_count}'', show_nat (length contributions)),
      (''{unique_contributors}'', show_nat (length (remdups (map memberId contributions)))),
      (''{latest_contribution}'',
         (case contributions of
            [] \<Rightarrow> ''None''
          | c # cs \<Rightarrow> ''$'' @ number_text env (amount c) @ '' from '' @ memberName c))]"

definition processTemplate ::
  "service \<Rightarrow> string \<Rightarrow> AlertRule \<Rightarrow> action_env \<Rightarrow> error + string" where
  "processTemplate s templateId rule env =
     (case find (\<lambda>t. tmpl_id t = templateId) (templates s) of
        None \<Rightarrow> Inr (''Alert triggered: '' @ rule_name rule)
      | Some template \<Rightarrow>
          (case recent env of
             Inl e \<Rightarrow> Inl e
           | Inr contributions \<Rightarrow>
               Inr (foldl (\<lambda>message (variable, v). replace_all variable v message)
                      (tmpl_body template) (variables rule contributions env))))"

section \<open>Firing a rule\<close>

text \<open>
  \<open>executeAction\<close> renders the message and calls the channel of the action's type; the
  result is what the channel accepted. A webhook without a (non-empty) URL and an email
  action call nothing.
\<close>

definition executeAction ::
  "service \<Rightarrow> AlertAction \<Rightarrow> AlertRule \<Rightarrow> action_env \<Rightarrow> error + dispatch list" where
  "executeAction s action rule env =
     (case processTemplate s (action_template action) rule env of
        Inl e \<Rightarrow> Inl e
      | Inr message \<Rightarrow>
          (case action_type action of
             Whatsapp \<Rightarrow>
               if channel_fails env then Inl DispatchFailure
               else Inr [WhatsAppAlert message ''alert'']
           | Push \<Rightarrow>
               if channel_fails env then Inl DispatchFailure
               else Inr [PushNotification (''Alert: '' @ rule_name rule) message
                           (rule_id rule) (rule_priority rule)]
           | Webhook \<Rightarrow>
               (case webhookUrl action of
                  None \<Rightarrow> Inr []
                | Some url \<Rightarrow>
                    if url = [] then Inr []
                    else if channel_fails env then Inl DispatchFailure
                    else Inr [WebhookPost url (rule_name rule) message
                                (rule_priority rule) (iso_now env)])
           | Email \<Rightarrow> Inr []))"

text \<open>
  The loop over \<open>rule.actions\<close> with its \<open>try\<close>/\<open>catch\<close> around each action; \<open>envs k\<close> is the
  world's answer during the action at position \<open>k\<close>.
\<close>

fun execute_actions ::
  "service \<Rightarrow> AlertAction list \<Rightarrow> AlertRule \<Rightarrow> (nat \<Rightarrow> action_env) \<Rightarrow> nat \<Rightarrow> service" where
  "execute_actions s [] rule envs k = s"
| "execute_actions s (a # as) rule envs k =
     (case executeAction s a rule (envs k) of
        Inl e \<Rightarrow> execute_actions s as rule envs (Suc k)
      | Inr ds \<Rightarrow> execute_actions (s\<lparr>sent := sent s @ ds\<rparr>) as rule envs (Suc k))"

definition saveAlertRules :: "service \<Rightarrow> bool \<Rightarrow> (error + unit) \<times> service" where
  "saveAlertRules s fails =
     (if fails then (Inl PersistenceFailure, s)
      else (Inr (), s\<lparr>stored_alertRules := Some (alertRules s)\<rparr>))"

text \<open>
  What the world answers during one \<open>triggerRule\<close>: the reading of \<open>Date.now()\<close>, the
  instant of \<open>new Date()\<close>, whether the storage write throws, and the answers during each
  action.
\<close>

record trigger_env =
  trigger_now :: int
  trigger_stamp :: int
  save_fails :: bool
  action_envs :: "nat \<Rightarrow> action_env"

text \<open>
  \<open>triggerRule(rule)\<close> receives a rule object of \<open>this.alertRules\<close> and assigns to its
  \<open>lastTriggered\<close>; the model receives the position \<open>i\<close> of that object in the list.
\<close>

definition triggerRule :: "service \<Rightarrow> nat \<Rightarrow> trigger_env \<Rightarrow> (error + unit) \<times> service" where
  "triggerRule s i env =
     (let rule = (alertRules s ! i)\<lparr>lastTriggered := Some (trigger_stamp env)\<rparr>;
          s1 = s\<lparr>activeAlerts := (activeAlerts s)(rule_id rule \<mapsto> trigger_now env),
                 alertRules := (alertRules s)[i := rule]\<rparr>
      in case saveAlertRules s1 (save_fails env) of
           (Inl e, s2) \<Rightarrow> (Inl e, s2)
         | (Inr u, s2) \<Rightarrow>
             (Inr (), execute_actions s2 (actions rule) rule (action_envs env) 0))"

text \<open>What the world answers while \<open>processAlertRules\<close> handles one rule.\<close>

record tick_env =
  check_now :: int
  cond_answers :: "AlertCondition \<Rightarrow> error + bool"
  trigger :: trigger_env

fun process_rules :: "service \<Rightarrow> nat list \<Rightarrow> (nat \<Rightarrow> tick_env) \<Rightarrow> service" where
  "process_rules s [] envs = s"
| "process_rules s (i # is) envs =
     (case shouldTriggerRule s (alertRules s ! i) (check_now (envs i)) (cond_answers (envs i)) of
        Inl e \<Rightarrow> process_rules s is envs
      | Inr b \<Rightarrow>
          if b then process_rules (snd (triggerRule s i (trigger (envs i)))) is envs
          else process_rules s is envs)"

text \<open>
  One tick of the monitor: the enabled rules, in the order of the list; an error of
  \<open>shouldTriggerRule\<close> or \<open>triggerRule\<close> is caught and the loop goes on.
\<close>

definition processAlertRules :: "service \<Rightarrow> (nat \<Rightarrow> tick_env) \<Rightarrow> service" where
  "processAlertRules s envs =
     process_rules s
       (filter (\<lambda>i. rule_enabled (alertRules s ! i)) [0..<length (alertRules s)]) envs"

section \<open>Calendar arithmetic of the JavaScript \<open>Date\<close>\<close>

text \<open>
  The abstract operations of ECMAScript's \<open>Date\<close> objects, on local time. A \<open>Date\<close> is
  its time value \<open>t\<close>, in milliseconds; the offset of the local zone is taken as constant
  (no daylight-saving shift), so that \<open>t\<close> counts local milliseconds and day \<open>0\<close> is
  Thursday, 1 January 1970. Months count from \<open>0\<close>.
\<close>

definition msPerDay :: int where
  "msPerDay = 86400000"

definition Day :: "int \<Rightarrow> int" where
  "Day t = t div msPerDay"

definition TimeWithinDay :: "int \<Rightarrow> int" where
  "TimeWithinDay t = t mod msPerDay"

definition DayFromYear :: "int \<Rightarrow> int" where
  "DayFromYear y =
     365 * (y - 1970) + (y - 1969) div 4 - (y - 1901) div 100 + (y - 1601) div 400"

definition DaysInYear :: "int \<Rightarrow> int" where
  "DaysInYear y =
     (if y mod 4 \<noteq> 0 then 365 else if y mod 100 \<noteq> 0 then 366
      else if y mod 400 \<noteq> 0 then 365 else 366)"

definition InLeapYear :: "int \<Rightarrow> int" where
  "InLeapYear y = (if DaysInYear y = 366 then 1 else 0)"

text \<open>
  The year of a day: the largest \<open>y\<close> with \<open>DayFromYear y \<le> d\<close>. It is one of the three
  years around \<open>1970 + d / 365.2425\<close>.
\<close>

definition YearFromDay :: "int \<Rightarrow> int" where
  "YearFromDay d =
     (let y = 1970 + (d * 400) div 146097
      in if DayFromYear (y + 1) \<le> d then y + 1
         else if DayFromYear y \<le> d then y
         else y - 1)"

definition DayWithinYear :: "int \<Rightarrow> int" where
  "DayWithinYear d = d - DayFromYear (YearFromDay d)"

text \<open>The number of days of a year before its month \<open>m\<close>; \<open>l\<close> is \<open>1\<close> in a leap year.\<close>

definition monthStart :: "int \<Rightarrow> int \<Rightarrow> int" where
  "monthStart m l =
     (if m = 0 then 0 else if m = 1 then 31 else if m = 2 then 59 + l
      else if m = 3 then 90 + l else if m = 4 then 120 + l else if m = 5 then 151 + l
      else if m = 6 then 181 + l else if m = 7 then 212 + l else if m = 8 then 243 + l
      else if m = 9 then 273 + l else if m = 10 then 304 + l else 334 + l)"

definition MonthFromDay :: "int \<Rightarrow> int" where
  "MonthFromDay d =
     (let w = DayWithinYear d; l = InLeapYear (YearFromDay d)
      in if w < 31 then 0 else if w < 59 + l then 1 else if w < 90 + l then 2
         else if w < 120 + l then 3 else if w < 151 + l then 4 else if w < 181 + l then 5
         else if w < 212 + l then 6 else if w < 243 + l then 7 else if w < 273 + l then 8
         else if w < 304 + l then 9 else if w < 334 + l then 10 else 11)"

definition DateFromDay :: "int \<Rightarrow> int" where
  "DateFromDay d =
     DayWithinYear d - monthStart (MonthFromDay d) (InLeapYear (YearFromDay d)) + 1"

definition DaysInMonth :: "int \<Rightarrow> int \<Rightarrow> int" where
  "DaysInMonth y m =
     (if m = 1 then 28 + InLeapYear y
      else if m = 3 \<or> m = 5 \<or> m = 8 \<or> m = 10 then 30 else 31)"

text \<open>
  \<open>MakeDay\<close> accepts a month and a date outside their ranges: the month carries into the
  year, and the date counts on from the first of the month into the months that follow
  (or back into those before).
\<close>

definition MakeDay :: "int \<Rightarrow> int \<Rightarrow> int \<Rightarrow> int" where
  "MakeDay year month date =
     (let ym = year + month div 12; mn = month mod 12
      in DayFromYear ym + monthStart mn (InLeapYear ym) + date - 1)"

definition MakeTime :: "int \<Rightarrow> int \<Rightarrow> int \<Rightarrow> int \<Rightarrow> int" where
  "MakeTime hour minute sec ms = hour * 3600000 + minute * 60000 + sec * 1000 + ms"

definition MakeDate :: "int \<Rightarrow> int \<Rightarrow> int" where
  "MakeDate day time = day * msPerDay + time"

definition getDay :: "int \<Rightarrow> int" where
  "getDay t = (Day t + 4) mod 7"

definition getDate :: "int \<Rightarrow> int" where
  "getDate t = DateFromDay (Day t)"

definition getMonth :: "int \<Rightarrow> int" where
  "getMonth t = MonthFromDay (Day t)"

definition getFullYear :: "int \<Rightarrow> int" where
  "getFullYear t = YearFromDay (Day t)"

definition setHours :: "int \<Rightarrow> int \<Rightarrow> int \<Rightarrow> int \<Rightarrow> int \<Rightarrow> int" where
  "setHours t hour minute sec ms = MakeDate (Day t) (MakeTime hour minute sec ms)"

definition setDate :: "int \<Rightarrow> int \<Rightarrow> int" where
  "setDate t date =
     MakeDate (MakeDay (getFullYear t) (getMonth t) date) (TimeWithinDay t)"

text \<open>\<open>setMonth(month, date)\<close>; without its second argument the date stays \<open>getDate()\<close>.\<close>

definition setMonth :: "int \<Rightarrow> int \<Rightarrow> int option \<Rightarrow> int" where
  "setMonth t month date =
     MakeDate
       (MakeDay (getFullYear t) month (case date of None \<Rightarrow> getDate t | Some dt \<Rightarrow> dt))
       (TimeWithinDay t)"

text \<open>\<open>new Date(year, month, date, hours, minutes)\<close>: the instant of a local civil time.\<close>

definition local_time :: "int \<Rightarrow> int \<Rightarrow> int \<Rightarrow> int \<Rightarrow> int \<Rightarrow> int" where
  "local_time year month date hour minute =
     MakeDate (MakeDay year month date) (MakeTime hour minute 0 0)"

section \<open>The next fire time of a schedule\<close>

text \<open>
  \<open>schedule.time.split(':').map(Number)\<close>, destructured into hours and minutes.
  \<open>Number\<close> reads a string of decimal digits as its value and the empty string as \<open>0\<close>. Any
  other piece, and a missing second piece, is \<open>None\<close> here: for most of them \<open>Number\<close> is
  \<open>NaN\<close> and the \<open>Date\<close> becomes invalid (the further spellings \<open>Number\<close> accepts, such as a
  sign, a fraction or blanks, are outside the \<open>HH:MM\<close> format and are not modelled).
\<close>

fun split :: "char \<Rightarrow> string \<Rightarrow> string list" where
  "split sep [] = [[]]"
| "split sep (c # cs) =
     (if c = sep then [] # split sep cs
      else (case split sep cs of
              [] \<Rightarrow> [[c]]
            | p # ps \<Rightarrow> (c # p) # ps))"

definition is_digit :: "char \<Rightarrow> bool" where
  "is_digit c = (c \<in> set ''0123456789'')"

definition Number :: "string \<Rightarrow> int option" where
  "Number str =
     (if list_all is_digit str
      then Some (foldl (\<lambda>n c. 10 * n + (of_char c - 48)) 0 str)
      else None)"

definition parseTime :: "string \<Rightarrow> (int \<times> int) option" where
  "parseTime str =
     (case split (CHR '':'') str of
        h # m # rest \<Rightarrow>
          (case (Number h, Number m) of
             (Some hours, Some minutes) \<Rightarrow> Some (hours, minutes)
           | _ \<Rightarrow> None)
      | _ \<Rightarrow> None)"

text \<open>\<open>schedule.days.find(day => day > current) || schedule.days[0]\<close>, for a non-empty list.\<close>

definition next_listed_day :: "int list \<Rightarrow> int \<Rightarrow> int" where
  "next_listed_day ds current =
     (case find (\<lambda>day. day > current) ds of
        None \<Rightarrow> hd ds
      | Some day \<Rightarrow> if day \<noteq> 0 then day else hd ds)"

text \<open>
  \<open>calculateNextSchedule\<close>, with the reading \<open>now\<close> of the clock as a parameter; \<open>None\<close> is
  the invalid \<open>Date\<close> of a time that does not parse.
\<close>

definition calculateNextSchedule :: "ScheduleConfig \<Rightarrow> int \<Rightarrow> int option" where
  "calculateNextSchedule schedule now =
     (case parseTime (sched_time schedule) of
        None \<Rightarrow> None
      | Some (hours, minutes) \<Rightarrow>
          (let nextDate = setHours now hours minutes 0 0
           in Some
             (case sched_type schedule of
                Daily \<Rightarrow>
                  if nextDate \<le> now then setDate nextDate (getDate nextDate + 1)
                  else nextDate
              | Weekly \<Rightarrow>
                  (case days schedule of
                     None \<Rightarrow> nextDate
                   | Some ds \<Rightarrow>
                       if ds = [] then nextDate
                       else
                         (let currentDay = getDay now;
                              nextDay = next_listed_day ds currentDay
                          in if nextDay \<le> currentDay \<and> nextDate \<le> now
                             then setDate nextDate (getDate nextDate + (7 - currentDay + hd ds))
                             else if nextDay > currentDay
                             then setDate nextDate (getDate nextDate + (nextDay - currentDay))
                             else if nextDate \<le> now
                             then setDate nextDate (getDate nextDate + 7)
                             else nextDate))
              | Monthly \<Rightarrow>
                  (case days schedule of
                     None \<Rightarrow> nextDate
                   | Some ds \<Rightarrow>
                       if ds = [] then nextDate
                       else
                         (let currentDate = getDate now;
                              nextDay = next_listed_day ds currentDate
                          in if nextDay \<le> currentDate \<and> nextDate \<le> now
                             then setMonth nextDate (getMonth nextDate + 1) (Some nextDay)
                             else if nextDay > currentDate
                             then setDate nextDate nextDay
                             else if nextDate \<le> now
                             then setMonth nextDate (getMonth nextDate + 1) None
                             else nextDate))
              | Custom \<Rightarrow> nextDate)))"

subsection \<open>The time of day as a configuration writes it\<close>

text \<open>
  The \<open>time\<close> field of a \<open>ScheduleConfig\<close> is documented as the string \<open>"HH:MM"\<close>. For an
  hour \<open>h\<close> below 24 and a minute \<open>m\<close> below 60, \<open>time_of_day h m\<close> is that string: the two
  decimal digits of \<open>h\<close>, a colon, and the two decimal digits of \<open>m\<close>, so that
  \<open>time_of_day 9 30\<close> is \<open>''09:30''\<close>. It is not part of the code: the properties of
  \<open>calculateNextSchedule\<close> are stated for the schedules whose \<open>time\<close> is such a string, and
  what the code reads out of the string is part of what they prove.
\<close>

definition digit_char :: "nat \<Rightarrow> char" where
  "digit_char n = ''0123456789'' ! n"

definition two_digits :: "nat \<Rightarrow> string" where
  "two_digits n = [digit_char (n div 10), digit_char (n mod 10)]"

definition time_of_day :: "nat \<Rightarrow> nat \<Rightarrow> string" where
  "time_of_day h m = two_digits h @ '':'' @ two_digits m"

section \<open>Management of rules, templates and scheduled notifications\<close>

text \<open>\<open>Array.prototype.findIndex\<close>; \<open>None\<close> is its \<open>-1\<close>.\<close>

fun findIndex :: "('a \<Rightarrow> bool) \<Rightarrow> 'a list \<Rightarrow> nat option" where
  "findIndex P [] = None"
| "findIndex P (x # xs) = (if P x then Some 0 else map_option Suc (findIndex P xs))"

text \<open>
  A \<open>Partial<T>\<close> names some of the fields of \<open>T\<close>; in the spread \<open>{...old, ...updates}\<close> a
  field that \<open>updates\<close> names replaces the old one.
\<close>

definition override :: "'a \<Rightarrow> 'a option \<Rightarrow> 'a" where
  "override old new = (case new of None \<Rightarrow> old | Some v \<Rightarrow> v)"

record AlertRule_updates =
  upd_rule_id :: "string option"
  upd_rule_name :: "string option"
  upd_rule_enabled :: "bool option"
  upd_rule_type :: "rule_kind option"
  upd_conditions :: "AlertCondition list option"
  upd_actions :: "AlertAction list option"
  upd_rule_schedule :: "ScheduleConfig option option"
  upd_cooldown :: "int option option"
  upd_rule_priority :: "priority option"
  upd_rule_createdAt :: "int option"
  upd_lastTriggered :: "int option option"

definition merge_rule :: "AlertRule \<Rightarrow> AlertRule_updates \<Rightarrow> AlertRule" where
  "merge_rule r u =
     \<lparr>rule_id = override (rule_id r) (upd_rule_id u),
      rule_name = override (rule_name r) (upd_rule_name u),
      rule_enabled = override (rule_enabled r) (upd_rule_enabled u),
      rule_type = override (rule_type r) (upd_rule_type u),
      conditions = override (conditions r) (upd_conditions u),
      actions = override (actions r) (upd_actions u),
      rule_schedule = override (rule_schedule r) (upd_rule_schedule u),
      cooldown = override (cooldown r) (upd_cooldown u),
      rule_priority = override (rule_priority r) (upd_rule_priority u),
      rule_createdAt = override (rule_createdAt r) (upd_rule_createdAt u),
      lastTriggered = override (lastTriggered r) (upd_lastTriggered u)\<rparr>"

record NotificationTemplate_updates =
  upd_tmpl_id :: "string option"
  upd_tmpl_name :: "string option"
  upd_tmpl_type :: "template_kind option"
  upd_tmpl_subject :: "string option"
  upd_tmpl_body :: "string option"
  upd_tmpl_variables :: "string list option"
  upd_tmpl_createdAt :: "int option"

definition merge_template ::
  "NotificationTemplate \<Rightarrow> NotificationTemplate_updates \<Rightarrow> NotificationTemplate" where
  "merge_template t u =
     \<lparr>tmpl_id = override (tmpl_id t) (upd_tmpl_id u),
      tmpl_name = override (tmpl_name t) (upd_tmpl_name u),
      tmpl_type = override (tmpl_type t) (upd_tmpl_type u),
      tmpl_subject = override (tmpl_subject t) (upd_tmpl_subject u),
      tmpl_body = override (tmpl_body t) (upd_tmpl_body u),
      tmpl_variables = override (tmpl_variables t) (upd_tmpl_variables u),
      tmpl_createdAt = override (tmpl_createdAt t) (upd_tmpl_createdAt u)\<rparr>"

record ScheduledNotification_updates =
  upd_notif_id :: "string option"
  upd_notif_type :: "notification_kind option"
  upd_notif_schedule :: "ScheduleConfig option"
  upd_notif_template :: "string option"
  upd_notif_recipients :: "string list option"
  upd_notif_enabled :: "bool option"
  upd_lastSent :: "int option option"
  upd_nextScheduled :: "int option"

definition merge_notification ::
  "ScheduledNotification \<Rightarrow> ScheduledNotification_updates \<Rightarrow> ScheduledNotification" where
  "merge_notification n u =
     \<lparr>notif_id = override (notif_id n) (upd_notif_id u),
      notif_type = override (notif_type n) (upd_notif_type u),
      notif_schedule = override (notif_schedule n) (upd_notif_schedule u),
      notif_template = override (notif_template n) (upd_notif_template u),
      notif_recipients = override (notif_recipients n) (upd_notif_recipients u),
      notif_enabled = override (notif_enabled n) (upd_notif_enabled u),
      lastSent = override (lastSent n) (upd_lastSent u),
      nextScheduled = override (nextScheduled n) (upd_nextScheduled u)\<rparr>"

subsection \<open>Alert rules\<close>

text \<open>\<open>activateRule\<close> only writes to the console.\<close>

definition activateRule :: "service \<Rightarrow> string \<Rightarrow> service" where
  "activateRule s ruleId = s"

definition deactivateRule :: "service \<Rightarrow> string \<Rightarrow> service" where
  "deactivateRule s ruleId = s\<lparr>activeAlerts := (activeAlerts s)(ruleId := None)\<rparr>"

definition show_int :: "int \<Rightarrow> string" where
  "show_int i = (if i < 0 then ''-'' @ show_nat (nat (- i)) else show_nat (nat i))"

text \<open>
  \<open>createAlertRule\<close>; \<open>now_id\<close> is the reading of \<open>Date.now()\<close> that names the rule and
  \<open>now_created\<close> the instant of \<open>new Date()\<close>. The fields \<open>rule_id\<close> and \<open>rule_createdAt\<close> of
  the argument stand for the two that its type omits, and are overwritten.
\<close>

definition createAlertRule ::
  "service \<Rightarrow> AlertRule \<Rightarrow> int \<Rightarrow> int \<Rightarrow> bool \<Rightarrow> (error + string) \<times> service" where
  "createAlertRule s rule now_id now_created fails =
     (let newRule = rule\<lparr>rule_id := ''rule_'' @ show_int now_id, rule_createdAt := now_created\<rparr>;
          s1 = s\<lparr>alertRules := alertRules s @ [newRule]\<rparr>
      in case saveAlertRules s1 fails of
           (Inl e, s2) \<Rightarrow> (Inl e, s2)
         | (Inr u, s2) \<Rightarrow>
             (Inr (rule_id newRule),
              if rule_enabled newRule then activateRule s2 (rule_id newRule) else s2))"

definition updateAlertRule ::
  "service \<Rightarrow> string \<Rightarrow> AlertRule_updates \<Rightarrow> bool \<Rightarrow> (error + unit) \<times> service" where
  "updateAlertRule s ident updates fails =
     (case findIndex (\<lambda>rule. rule_id rule = ident) (alertRules s) of
        None \<Rightarrow> (Inl (NotFound ''Alert rule not found''), s)
      | Some index \<Rightarrow>
          (let wasEnabled = rule_enabled (alertRules s ! index);
               s1 = s\<lparr>alertRules :=
                        (alertRules s)[index := merge_rule (alertRules s ! index) updates]\<rparr>
           in case saveAlertRules s1 fails of
                (Inl e, s2) \<Rightarrow> (Inl e, s2)
              | (Inr u, s2) \<Rightarrow>
                  if wasEnabled \<and> \<not> rule_enabled (alertRules s2 ! index)
                  then (Inr (), deactivateRule s2 ident)
                  else if \<not> wasEnabled \<and> rule_enabled (alertRules s2 ! index)
                  then (Inr (), activateRule s2 ident)
                  else (Inr (), s2)))"

definition deleteAlertRule :: "service \<Rightarrow> string \<Rightarrow> bool \<Rightarrow> (error + unit) \<times> service" where
  "deleteAlertRule s ident fails =
     (let s1 = deactivateRule s ident;
          s2 = s1\<lparr>alertRules := filter (\<lambda>rule. rule_id rule \<noteq> ident) (alertRules s1)\<rparr>
      in saveAlertRules s2 fails)"

subsection \<open>Templates\<close>

definition saveTemplates :: "service \<Rightarrow> bool \<Rightarrow> (error + unit) \<times> service" where
  "saveTemplates s fails =
     (if fails then (Inl PersistenceFailure, s)
      else (Inr (), s\<lparr>stored_templates := Some (templates s)\<rparr>))"

definition updateTemplate ::
  "service \<Rightarrow> string \<Rightarrow> NotificationTemplate_updates \<Rightarrow> bool \<Rightarrow> (error + unit) \<times> service" where
  "updateTemplate s ident updates fails =
     (case findIndex (\<lambda>template. tmpl_id template = ident) (templates s) of
        None \<Rightarrow> (Inl (NotFound ''Template not found''), s)
      | Some index \<Rightarrow>
          saveTemplates
            (s\<lparr>templates := (templates s)[index := merge_template (templates s ! index) updates]\<rparr>)
            fails)"

definition deleteTemplate :: "service \<Rightarrow> string \<Rightarrow> bool \<Rightarrow> (error + unit) \<times> service" where
  "deleteTemplate s ident fails =
     saveTemplates
       (s\<lparr>templates := filter (\<lambda>template. tmpl_id template \<noteq> ident) (templates s)\<rparr>) fails"

subsection \<open>Scheduled notifications\<close>

definition saveScheduledNotifications :: "service \<Rightarrow> bool \<Rightarrow> (error + unit) \<times> service" where
  "saveScheduledNotifications s fails =
     (if fails then (Inl PersistenceFailure, s)
      else (Inr (), s\<lparr>stored_scheduled := Some (scheduledNotifications s)\<rparr>))"

text \<open>\<open>notification.type.replace('_', ' ').toUpperCase()\<close>, for each of the four types.\<close>

definition type_title :: "notification_kind \<Rightarrow> string" where
  "type_title k =
     (case k of
        Daily_report \<Rightarrow> ''DAILY REPORT''
      | Weekly_summary \<Rightarrow> ''WEEKLY SUMMARY''
      | Monthly_report \<Rightarrow> ''MONTHLY REPORT''
      | Custom_alert \<Rightarrow> ''CUSTOM ALERT'')"

text \<open>
  The two calls of the operating system's scheduler; \<open>fails\<close> says whether the call throws.
\<close>

definition scheduleNotification ::
  "service \<Rightarrow> ScheduledNotification \<Rightarrow> bool \<Rightarrow> (error + unit) \<times> service" where
  "scheduleNotification s notification fails =
     (if fails then (Inl SchedulerFailure, s)
      else (Inr (),
            s\<lparr>os_scheduled := (os_scheduled s)
                 (''scheduled_'' @ notif_id notification \<mapsto>
                    \<lparr>req_title = ''TRUEFAM '' @ type_title (notif_type notification),
                     req_scheduledId = notif_id notification,
                     req_type = notif_type notification,
                     req_date = nextScheduled notification\<rparr>)\<rparr>))"

definition cancelScheduledNotification ::
  "service \<Rightarrow> string \<Rightarrow> bool \<Rightarrow> (error + unit) \<times> service" where
  "cancelScheduledNotification s ident fails =
     (if fails then (Inl SchedulerFailure, s)
      else (Inr (), s\<lparr>os_scheduled := (os_scheduled s)(''scheduled_'' @ ident := None)\<rparr>))"

text \<open>
  What the world answers during an operation on a scheduled notification: the reading of
  the clock in \<open>calculateNextSchedule\<close>, and whether the storage write and the scheduler's
  call throw.
\<close>

record schedule_env =
  clock_now :: int
  storage_fails :: bool
  scheduler_fails :: bool

text \<open>
  \<open>updateScheduledNotification\<close>. An invalid \<open>Date\<close> makes \<open>toISOString\<close> throw after the
  merged notification has been stored in the list.
\<close>

definition updateScheduledNotification ::
  "service \<Rightarrow> string \<Rightarrow> ScheduledNotification_updates \<Rightarrow> schedule_env
     \<Rightarrow> (error + unit) \<times> service" where
  "updateScheduledNotification s ident updates env =
     (case findIndex (\<lambda>notif. notif_id notif = ident) (scheduledNotifications s) of
        None \<Rightarrow> (Inl (NotFound ''Scheduled notification not found''), s)
      | Some index \<Rightarrow>
          (let wasEnabled = notif_enabled (scheduledNotifications s ! index);
               merged = merge_notification (scheduledNotifications s ! index) updates;
               s1 = s\<lparr>scheduledNotifications := (scheduledNotifications s)[index := merged]\<rparr>
           in case (case upd_notif_schedule updates of
                      None \<Rightarrow> Some merged
                    | Some sch \<Rightarrow>
                        map_option (\<lambda>t. merged\<lparr>nextScheduled := t\<rparr>)
                          (calculateNextSchedule (notif_schedule merged) (clock_now env))) of
                None \<Rightarrow> (Inl InvalidTime, s1)
              | Some notif \<Rightarrow>
                  (case saveScheduledNotifications
                          (s1\<lparr>scheduledNotifications :=
                                (scheduledNotifications s1)[index := notif]\<rparr>)
                          (storage_fails env) of
                     (Inl e, s2) \<Rightarrow> (Inl e, s2)
                   | (Inr u, s2) \<Rightarrow>
                       if wasEnabled \<and> \<not> notif_enabled notif
                       then cancelScheduledNotification s2 ident (scheduler_fails env)
                       else if \<not> wasEnabled \<and> notif_enabled notif
                       then scheduleNotification s2 notif (scheduler_fails env)
                       else (Inr (), s2))))"

definition deleteScheduledNotification ::
  "service \<Rightarrow> string \<Rightarrow> schedule_env \<Rightarrow> (error + unit) \<times> service" where
  "deleteScheduledNotification s ident env =
     (case cancelScheduledNotification s ident (scheduler_fails env) of
        (Inl e, s1) \<Rightarrow> (Inl e, s1)
      | (Inr u, s1) \<Rightarrow>
          saveScheduledNotifications
            (s1\<lparr>scheduledNotifications :=
                  filter (\<lambda>notif. notif_id notif \<noteq> ident) (scheduledNotifications s1)\<rparr>)
            (storage_fails env))"

section \<open>Example data\<close>

text \<open>
  A rule without conditions and with a cooldown of five minutes, whose actions are a webhook
  and then a push notification; a service that holds this rule only; and answers of the
  world in which chosen calls of the channels fail.
\<close>

definition demo_rule :: AlertRule where
  "demo_rule =
     \<lparr>rule_id = ''rule_1793577600000'', rule_name = ''Large gift'', rule_enabled = True,
      rule_type = Amount_threshold, conditions = [],
      actions =
        [\<lparr>action_type = Webhook, action_template = ''none'', recipients = None,
          webhookUrl = Some ''https://example.org/hook''\<rparr>,
         \<lparr>action_type = Push, action_template = ''none'', recipients = None,
          webhookUrl = None\<rparr>],
      rule_schedule = None, cooldown = Some 5, rule_priority = High,
      rule_createdAt = 1793577600000, lastTriggered = None\<rparr>"

definition demo_service :: service where
  "demo_service = empty_service\<lparr>alertRules := [demo_rule]\<rparr>"

definition demo_action_env :: "bool \<Rightarrow> action_env" where
  "demo_action_env fails =
     \<lparr>recent = Inr [], locale_now = ''11/2/2026, 9:00:00 AM'', iso_now = 1793610000000,
      number_text = (\<lambda>x. ''0''), channel_fails = fails\<rparr>"

definition demo_trigger_env :: "(nat \<Rightarrow> bool) \<Rightarrow> trigger_env" where
  "demo_trigger_env fails =
     \<lparr>trigger_now = 1793610000000, trigger_stamp = 1793610000001, save_fails = False,
      action_envs = (\<lambda>k. demo_action_env (fails k))\<rparr>"


text \<open>
  The service after the rule has fired once; one tick of the monitor in which every
  condition holds; and the update that disables a rule.
\<close>

definition demo_fired :: service where
  "demo_fired = demo_service\<lparr>activeAlerts := [''rule_1793577600000'' \<mapsto> 1793610000000]\<rparr>"

definition demo_tick_at :: "int \<Rightarrow> nat \<Rightarrow> tick_env" where
  "demo_tick_at t i =
     \<lparr>check_now = t, cond_answers = (\<lambda>c. Inr True), trigger = demo_trigger_env (\<lambda>k. False)\<rparr>"

definition demo_tick :: "nat \<Rightarrow> tick_env" where
  "demo_tick i =
     \<lparr>check_now = 1793610500000, cond_answers = (\<lambda>c. Inr True),
      trigger = demo_trigger_env (\<lambda>k. False)\<rparr>"

definition no_rule_updates :: AlertRule_updates where
  "no_rule_updates =
     \<lparr>upd_rule_id = None, upd_rule_name = None, upd_rule_enabled = None, upd_rule_type = None,
      upd_conditions = None, upd_actions = None, upd_rule_schedule = None, upd_cooldown = None,
      upd_rule_priority = None, upd_rule_createdAt = None, upd_lastTriggered = None\<rparr>"

definition no_template_updates :: NotificationTemplate_updates where
  "no_template_updates =
     \<lparr>upd_tmpl_id = None, upd_tmpl_name = None, upd_tmpl_type = None, upd_tmpl_subject = None,
      upd_tmpl_body = None, upd_tmpl_variables = None, upd_tmpl_createdAt = None\<rparr>"

definition no_notification_updates :: ScheduledNotification_updates where
  "no_notification_updates =
     \<lparr>upd_notif_id = None, upd_notif_type = None, upd_notif_schedule = None,
      upd_notif_template = None, upd_notif_recipients = None, upd_notif_enabled = None,
      upd_lastSent = None, upd_nextScheduled = None\<rparr>"

definition demo_schedule_env :: schedule_env where
  "demo_schedule_env =
     \<lparr>clock_now = 1793610000000, storage_fails = False, scheduler_fails = False\<rparr>"

text \<open>
  A daily schedule at a given time, a weekly one at 07:00 on Monday, Wednesday and Friday,
  and a monthly one at a given time on given days of the month.
\<close>

definition demo_daily :: "string \<Rightarrow> ScheduleConfig" where
  "demo_daily t =
     \<lparr>sched_type = Daily, sched_time = t, days = None, timezone = ''UTC'',
      sched_enabled = True\<rparr>"

definition demo_weekly :: ScheduleConfig where
  "demo_weekly =
     \<lparr>sched_type = Weekly, sched_time = ''07:00'', days = Some [1, 3, 5], timezone = ''UTC'',
      sched_enabled = True\<rparr>"

definition demo_monthly :: "string \<Rightarrow> int list \<Rightarrow> ScheduleConfig" where
  "demo_monthly t ds =
     \<lparr>sched_type = Monthly, sched_time = t, days = Some ds, timezone = ''UTC'',
      sched_enabled = True\<rparr>"

text \<open>
  A template with a given body, the rule under a given name, and the answers of the world
  while a message is rendered: one contribution of 125.50 in the last 24 hours.
\<close>

definition demo_template :: "string \<Rightarrow> NotificationTemplate" where
  "demo_template b =
     \<lparr>tmpl_id = ''template_1'', tmpl_name = ''Summary'', tmpl_type = Alert_t,
      tmpl_subject = ''Summary'', tmpl_body = b, tmpl_variables = [], tmpl_createdAt = 0\<rparr>"

definition demo_named :: "string \<Rightarrow> AlertRule" where
  "demo_named n = demo_rule\<lparr>rule_name := n\<rparr>"

definition demo_render_env :: action_env where
  "demo_render_env =
     \<lparr>recent = Inr [\<lparr>amount = 251 / 2, memberId = ''m1'', memberName = ''Ann''\<rparr>],
      locale_now = ''11/2/2026, 9:00:00 AM'', iso_now = 1793610000000,
      number_text = (\<lambda>x. ''125.5''), channel_fails = False\<rparr>"

section \<open>Properties of the rule engine\<close>

lemmas demo_defs =
  demo_rule_def demo_service_def demo_action_env_def demo_trigger_env_def demo_tick_at_def
  empty_service_def

lemma executeAction_sent_irrelevant [simp]:
  "executeAction (s\<lparr>sent := x\<rparr>) a r env = executeAction s a r env"
  by (simp add: executeAction_def processTemplate_def)

lemma executeAction_cong:
  assumes "templates s' = templates s" "rule_name r' = rule_name r" "rule_id r' = rule_id r"
    "rule_priority r' = rule_priority r"
  shows "executeAction s' a r' env = executeAction s a r env"
  unfolding executeAction_def processTemplate_def variables_def assms by (rule refl)

lemma execute_actions_fields:
  "alertRules (execute_actions s as r envs k) = alertRules s"
  "activeAlerts (execute_actions s as r envs k) = activeAlerts s"
  "stored_alertRules (execute_actions s as r envs k) = stored_alertRules s"
  "templates (execute_actions s as r envs k) = templates s"
  by (induction as arbitrary: s k; simp split: sum.splits)+

lemma execute_actions_sent_prefix:
  "\<exists>zs. sent (execute_actions s as r envs k) = sent s @ zs"
proof (induction as arbitrary: s k)
  case Nil
  then show ?case by simp
next
  case (Cons a as)
  show ?case
  proof (cases "executeAction s a r (envs k)")
    case (Inl e)
    then show ?thesis using Cons.IH [of s "Suc k"] by simp
  next
    case (Inr ds)
    from Cons.IH [of "s\<lparr>sent := sent s @ ds\<rparr>" "Suc k"]
    obtain zs where "sent (execute_actions (s\<lparr>sent := sent s @ ds\<rparr>) as r envs (Suc k))
        = sent s @ ds @ zs" by auto
    with Inr show ?thesis by simp
  qed
qed

lemma execute_actions_delivers:
  assumes "b < length as" and "executeAction s (as ! b) r (envs (k + b)) = Inr ds"
  shows "\<exists>xs ys. sent (execute_actions s as r envs k) = sent s @ xs @ ds @ ys"
  using assms
proof (induction as arbitrary: s k b)
  case Nil
  then show ?case by simp
next
  case (Cons a as)
  show ?case
  proof (cases b)
    case 0
    with Cons.prems have ok: "executeAction s a r (envs k) = Inr ds" by simp
    obtain zs where "sent (execute_actions (s\<lparr>sent := sent s @ ds\<rparr>) as r envs (Suc k))
        = sent s @ ds @ zs"
      using execute_actions_sent_prefix [of "s\<lparr>sent := sent s @ ds\<rparr>" as r envs "Suc k"] by auto
    with ok have "sent (execute_actions s (a # as) r envs k) = sent s @ [] @ ds @ zs" by simp
    then show ?thesis by blast
  next
    case (Suc b')
    with Cons.prems have b': "b' < length as"
      and ex: "executeAction s (as ! b') r (envs (Suc k + b')) = Inr ds" by simp_all
    show ?thesis
    proof (cases "executeAction s a r (envs k)")
      case (Inl e)
      from Cons.IH [OF b', of s "Suc k"] ex Inl show ?thesis by simp
    next
      case (Inr es)
      from ex have "executeAction (s\<lparr>sent := sent s @ es\<rparr>) (as ! b') r (envs (Suc k + b')) = Inr ds"
        by simp
      from Cons.IH [OF b' this]
      obtain xs ys where "sent (execute_actions (s\<lparr>sent := sent s @ es\<rparr>) as r envs (Suc k))
          = sent s @ (es @ xs) @ ds @ ys" by auto
      with Inr have "sent (execute_actions s (a # as) r envs k) = sent s @ (es @ xs) @ ds @ ys"
        by simp
      then show ?thesis by blast
    qed
  qed
qed

lemma triggerRule_snd_fields:
  "activeAlerts (snd (triggerRule s i env))
     = (activeAlerts s)(rule_id (alertRules s ! i) \<mapsto> trigger_now env)"
  "alertRules (snd (triggerRule s i env))
     = (alertRules s)[i := (alertRules s ! i)\<lparr>lastTriggered := Some (trigger_stamp env)\<rparr>]"
  "templates (snd (triggerRule s i env)) = templates s"
  by (simp_all add: triggerRule_def saveAlertRules_def Let_def execute_actions_fields)

lemma in_cooldown_window:
  assumes "activeAlerts s (rule_id rule) = Some t" and "cooldown rule = Some C"
    and "t \<noteq> 0" and "t < t'" and "t' < t + C * 60 * 1000"
  shows "shouldTriggerRule s rule t' ev = Inr False"
proof -
  from assms have "C \<noteq> 0" by auto
  with assms show ?thesis by (simp add: shouldTriggerRule_def in_cooldown_def)
qed

lemma triggerRule_ids:
  "map rule_id (alertRules (snd (triggerRule s i env))) = map rule_id (alertRules s)"
  "map rule_enabled (alertRules (snd (triggerRule s i env))) = map rule_enabled (alertRules s)"
  by (simp_all add: triggerRule_snd_fields map_update) (metis list_update_id map_update)+

lemma triggerRule_cooldowns:
  "map cooldown (alertRules (snd (triggerRule s j env))) = map cooldown (alertRules s)"
  by (simp add: triggerRule_snd_fields map_update) (metis list_update_id map_update)

lemma process_rules_skips_cooling_rule:
  assumes "i < length (alertRules s)"
    and "distinct (map rule_id (alertRules s))"
    and "activeAlerts s (rule_id (alertRules s ! i)) = Some t" and "t \<noteq> 0"
    and "cooldown (alertRules s ! i) = Some C"
    and "t < check_now (envs i)" and "check_now (envs i) < t + C * 60 * 1000"
    and "\<forall>j\<in>set js. j < length (alertRules s)"
  shows "process_rules s js envs = process_rules s (removeAll i js) envs"
  using assms
proof (induction js arbitrary: s)
  case Nil
  then show ?case by simp
next
  case (Cons j js)
  have rest: "\<forall>k\<in>set js. k < length (alertRules s)" using Cons.prems(8) by simp
  note skip = Cons.IH [OF Cons.prems(1-7) rest]
  show ?case
  proof (cases "j = i")
    case True
    have "shouldTriggerRule s (alertRules s ! i) (check_now (envs i)) (cond_answers (envs i))
        = Inr False"
      using Cons.prems(3-7) by (intro in_cooldown_window [where t = t and C = C]) simp_all
    with True skip show ?thesis by simp
  next
    case False
    let ?s' = "snd (triggerRule s j (trigger (envs j)))"
    from Cons.prems(8) have j: "j < length (alertRules s)" by simp
    have ids: "map rule_id (alertRules ?s') = map rule_id (alertRules s)"
      by (rule triggerRule_ids)
    then have len: "length (alertRules ?s') = length (alertRules s)"
      by (metis length_map)
    have same: "alertRules ?s' ! i = alertRules s ! i"
      using False by (simp add: triggerRule_snd_fields)
    have "(map rule_id (alertRules s) ! j = map rule_id (alertRules s) ! i) = (j = i)"
      using Cons.prems(1,2) j by (intro nth_eq_iff_index_eq) simp_all
    then have other: "rule_id (alertRules s ! j) \<noteq> rule_id (alertRules s ! i)"
      using Cons.prems(1) j False by simp
    have fired: "process_rules ?s' js envs = process_rules ?s' (removeAll i js) envs"
    proof (rule Cons.IH)
      show "i < length (alertRules ?s')" using Cons.prems(1) len by simp
      show "distinct (map rule_id (alertRules ?s'))" using Cons.prems(2) ids by simp
      show "activeAlerts ?s' (rule_id (alertRules ?s' ! i)) = Some t"
        unfolding same using Cons.prems(3) other by (simp add: triggerRule_snd_fields(1))
      show "t \<noteq> 0" by (rule Cons.prems(4))
      show "cooldown (alertRules ?s' ! i) = Some C" using Cons.prems(5) by (simp add: same)
      show "t < check_now (envs i)" by (rule Cons.prems(6))
      show "check_now (envs i) < t + C * 60 * 1000" by (rule Cons.prems(7))
      show "\<forall>k\<in>set js. k < length (alertRules ?s')" using rest len by simp
    qed
    from False skip fired show ?thesis by (simp split: sum.splits)
  qed
qed

text \<open>
  C1. When the rule at position \<open>i\<close> has a cooldown of \<open>C\<close> minutes and \<open>triggerRule\<close> fires
  it at the instant \<open>t\<close> (a reading of \<open>Date.now()\<close>, which is not \<open>0\<close> on a clock set
  after 1 January 1970), the cooldown map records \<open>t\<close> under the rule's id, and \<open>shouldTriggerRule\<close> answers
  \<open>false\<close> for the rule at every instant \<open>t'\<close> with \<open>t < t' < t + C\<close> minutes, whatever the
  conditions evaluate to. So the rule does not fire again in that time: when the ids of the
  rules are distinct, a tick of the monitor that reads the clock at \<open>t'\<close> for the rule
  leaves the service as the same tick without the rule does.
\<close>

theorem cooldown_suppresses_retrigger:
  assumes "i < length (alertRules s)"
    and "cooldown (alertRules s ! i) = Some C"
    and "trigger_now env \<noteq> 0"
    and "trigger_now env < t'"
    and "t' < trigger_now env + C * 60 * 1000"
  shows "activeAlerts (snd (triggerRule s i env)) (rule_id (alertRules s ! i)) = Some (trigger_now env)
    \<and> shouldTriggerRule (snd (triggerRule s i env)) (alertRules (snd (triggerRule s i env)) ! i) t' ev
        = Inr False
    \<and> (distinct (map rule_id (alertRules s)) \<and> check_now (envs i) = t' \<longrightarrow>
         processAlertRules (snd (triggerRule s i env)) envs
         = process_rules (snd (triggerRule s i env))
             (removeAll i
                (filter (\<lambda>k. rule_enabled (alertRules (snd (triggerRule s i env)) ! k))
                   [0..<length (alertRules (snd (triggerRule s i env)))]))
             envs)"
proof -
  let ?s' = "snd (triggerRule s i env)"
  have m: "activeAlerts ?s' (rule_id (alertRules s ! i)) = Some (trigger_now env)"
    by (simp add: triggerRule_snd_fields)
  have r: "alertRules ?s' ! i = (alertRules s ! i)\<lparr>lastTriggered := Some (trigger_stamp env)\<rparr>"
    using assms(1) by (simp add: triggerRule_snd_fields)
  have len: "length (alertRules ?s') = length (alertRules s)"
    by (simp add: triggerRule_snd_fields)
  have c: "shouldTriggerRule ?s' (alertRules ?s' ! i) t' ev = Inr False"
    using assms m by (intro in_cooldown_window [where t = "trigger_now env" and C = C]) (simp_all add: r)
  have p: "processAlertRules ?s' envs
      = process_rules ?s'
          (removeAll i (filter (\<lambda>k. rule_enabled (alertRules ?s' ! k)) [0..<length (alertRules ?s')]))
          envs"
    if d: "distinct (map rule_id (alertRules s))" and e: "check_now (envs i) = t'"
    unfolding processAlertRules_def
  proof (rule process_rules_skips_cooling_rule [where t = "trigger_now env" and C = C])
    show "i < length (alertRules ?s')" using assms(1) len by simp
    show "distinct (map rule_id (alertRules ?s'))" using d by (simp add: triggerRule_ids)
    show "activeAlerts ?s' (rule_id (alertRules ?s' ! i)) = Some (trigger_now env)"
      unfolding r using m by simp
    show "trigger_now env \<noteq> 0" using assms(3) by simp
    show "cooldown (alertRules ?s' ! i) = Some C" unfolding r using assms(2) by simp
    show "trigger_now env < check_now (envs i)" using assms(4) e by simp
    show "check_now (envs i) < trigger_now env + C * 60 * 1000" using assms(5) e by simp
    show "\<forall>j\<in>set (filter (\<lambda>k. rule_enabled (alertRules ?s' ! k)) [0..<length (alertRules ?s')]).
        j < length (alertRules ?s')" by simp
  qed
  from m c p show ?thesis by blast
qed

theorem cooldown_suppresses_retrigger_witness:
  "activeAlerts (snd (triggerRule demo_service 0 (demo_trigger_env (\<lambda>k. False))))
      ''rule_1793577600000'' = Some 1793610000000
   \<and> shouldTriggerRule (snd (triggerRule demo_service 0 (demo_trigger_env (\<lambda>k. False))))
        (alertRules (snd (triggerRule demo_service 0 (demo_trigger_env (\<lambda>k. False)))) ! 0)
        1793610299999 (\<lambda>c. Inr True) = Inr False
   \<and> processAlertRules (snd (triggerRule demo_service 0 (demo_trigger_env (\<lambda>k. False))))
        (demo_tick_at 1793610299999)
       = snd (triggerRule demo_service 0 (demo_trigger_env (\<lambda>k. False)))"
proof -
  have h: "0 < length (alertRules demo_service)" "cooldown (alertRules demo_service ! 0) = Some 5"
    "trigger_now (demo_trigger_env (\<lambda>k. False)) \<noteq> 0"
    "trigger_now (demo_trigger_env (\<lambda>k. False)) < 1793610299999"
    "1793610299999 < trigger_now (demo_trigger_env (\<lambda>k. False)) + 5 * 60 * 1000"
    by (simp_all add: demo_defs)
  note t = cooldown_suppresses_retrigger [OF h, of "\<lambda>c. Inr True" "demo_tick_at 1793610299999"]
  have d: "distinct (map rule_id (alertRules demo_service))
      \<and> check_now (demo_tick_at 1793610299999 0) = 1793610299999"
    by (simp add: demo_defs demo_tick_at_def)
  have f: "removeAll 0
      (filter (\<lambda>k. rule_enabled
                 (alertRules (snd (triggerRule demo_service 0 (demo_trigger_env (\<lambda>k. False)))) ! k))
         [0..<length (alertRules (snd (triggerRule demo_service 0 (demo_trigger_env (\<lambda>k. False)))))])
      = []"
    by (simp add: triggerRule_snd_fields demo_defs)
  from t d have "processAlertRules (snd (triggerRule demo_service 0 (demo_trigger_env (\<lambda>k. False))))
        (demo_tick_at 1793610299999)
       = process_rules (snd (triggerRule demo_service 0 (demo_trigger_env (\<lambda>k. False)))) [] 
           (demo_tick_at 1793610299999)"
    unfolding f by blast
  then have p: "processAlertRules (snd (triggerRule demo_service 0 (demo_trigger_env (\<lambda>k. False))))
        (demo_tick_at 1793610299999)
       = snd (triggerRule demo_service 0 (demo_trigger_env (\<lambda>k. False)))"
    by simp
  have a: "activeAlerts (snd (triggerRule demo_service 0 (demo_trigger_env (\<lambda>k. False))))
      ''rule_1793577600000'' = Some 1793610000000"
    using t [THEN conjunct1] by (simp add: demo_defs)
  from a t [THEN conjunct2, THEN conjunct1] p show ?thesis by (intro conjI)
qed

text \<open>
  C3. For a rule whose list of conditions is empty, \<open>shouldTriggerRule\<close> answers \<open>true\<close>
  whenever no trigger is recorded for the rule's id, or the rule has no cooldown, or the
  cooldown has elapsed since the recorded trigger.
\<close>

theorem empty_conditions_trigger_after_cooldown:
  assumes "conditions rule = []"
    and "activeAlerts s (rule_id rule) = None \<or> cooldown rule = None
         \<or> (\<exists>lastT c. activeAlerts s (rule_id rule) = Some lastT \<and> cooldown rule = Some c
               \<and> c * 60 * 1000 \<le> now - lastT)"
  shows "shouldTriggerRule s rule now ev = Inr True"
  using assms by (auto simp add: shouldTriggerRule_def in_cooldown_def split: option.splits)

theorem empty_conditions_trigger_after_cooldown_witness:
  "shouldTriggerRule (demo_service\<lparr>activeAlerts := [''rule_1793577600000'' \<mapsto> 1793610000000]\<rparr>)
     demo_rule 1793610300000 (\<lambda>c. Inr False) = Inr True
   \<and> shouldTriggerRule demo_service demo_rule 1793610000000 (\<lambda>c. Inr False) = Inr True"
  using empty_conditions_trigger_after_cooldown
    [of demo_rule "demo_service\<lparr>activeAlerts := [''rule_1793577600000'' \<mapsto> 1793610000000]\<rparr>"
       1793610300000 "\<lambda>c. Inr False"]
    empty_conditions_trigger_after_cooldown
    [of demo_rule demo_service 1793610000000 "\<lambda>c. Inr False"]
  by (simp add: demo_defs)

text \<open>
  C7. When \<open>triggerRule\<close> fires a rule and the execution of its action at position \<open>a\<close>
  throws, the error is caught: \<open>triggerRule\<close> itself returns normally, and every later
  action \<open>b\<close> is still executed, so that what it hands to its channel reaches the channel.
\<close>

theorem action_failure_does_not_block_later_actions:
  assumes "i < length (alertRules s)"
    and "\<not> save_fails env"
    and "a < b"
    and "b < length (actions (alertRules s ! i))"
    and "executeAction s (actions (alertRules s ! i) ! a) (alertRules s ! i) (action_envs env a)
           = Inl e"
    and "executeAction s (actions (alertRules s ! i) ! b) (alertRules s ! i) (action_envs env b)
           = Inr ds"
  shows "fst (triggerRule s i env) = Inr ()
    \<and> (\<exists>xs ys. sent (snd (triggerRule s i env)) = sent s @ xs @ ds @ ys)"
proof -
  let ?rule = "(alertRules s ! i)\<lparr>lastTriggered := Some (trigger_stamp env)\<rparr>"
  let ?s2 = "s\<lparr>activeAlerts := (activeAlerts s)(rule_id ?rule \<mapsto> trigger_now env),
               alertRules := (alertRules s)[i := ?rule],
               stored_alertRules := Some ((alertRules s)[i := ?rule])\<rparr>"
  have t: "triggerRule s i env
      = (Inr (), execute_actions ?s2 (actions ?rule) ?rule (action_envs env) 0)"
    using assms(2) by (simp add: triggerRule_def saveAlertRules_def Let_def)
  have "executeAction ?s2 (actions ?rule ! b) ?rule (action_envs env (0 + b))
      = executeAction s (actions (alertRules s ! i) ! b) (alertRules s ! i) (action_envs env b)"
    by (simp, rule executeAction_cong) simp_all
  with assms(6) have "executeAction ?s2 (actions ?rule ! b) ?rule (action_envs env (0 + b)) = Inr ds"
    by simp
  moreover have "b < length (actions ?rule)" using assms(4) by simp
  ultimately obtain xs ys where
    "sent (execute_actions ?s2 (actions ?rule) ?rule (action_envs env) 0) = sent ?s2 @ xs @ ds @ ys"
    using execute_actions_delivers by blast
  with t show ?thesis by auto
qed

theorem action_failure_does_not_block_later_actions_witness:
  "executeAction demo_service (actions demo_rule ! 0) demo_rule (demo_action_env True)
     = Inl DispatchFailure
   \<and> fst (triggerRule demo_service 0 (demo_trigger_env (\<lambda>k. k = 0))) = Inr ()
   \<and> (\<exists>xs ys. sent (snd (triggerRule demo_service 0 (demo_trigger_env (\<lambda>k. k = 0))))
        = xs @ [PushNotification ''Alert: Large gift'' ''Alert triggered: Large gift''
                  ''rule_1793577600000'' High] @ ys)"
  using action_failure_does_not_block_later_actions
    [of 0 demo_service "demo_trigger_env (\<lambda>k. k = 0)" 0 1 DispatchFailure
       "[PushNotification ''Alert: Large gift'' ''Alert triggered: Large gift''
           ''rule_1793577600000'' High]"]
  by (simp add: demo_defs executeAction_def processTemplate_def)

text \<open>
  C10. \<open>triggerRule\<close> records the trigger before it executes any action: whatever the
  actions do (each of them may fail), the cooldown map holds the instant of the trigger under
  the rule's id and the rule's \<open>lastTriggered\<close> is set; the rule list is persisted with it and
  the actions run only when the storage write succeeds, and a failed write stops
  \<open>triggerRule\<close> before any action, with the trigger still recorded in memory; and the rule
  is in cooldown afterwards.
\<close>

theorem trigger_recorded_before_actions:
  assumes "i < length (alertRules s)"
  shows "activeAlerts (snd (triggerRule s i env)) (rule_id (alertRules s ! i))
           = Some (trigger_now env)
    \<and> lastTriggered (alertRules (snd (triggerRule s i env)) ! i) = Some (trigger_stamp env)
    \<and> (if save_fails env
        then fst (triggerRule s i env) = Inl PersistenceFailure
             \<and> sent (snd (triggerRule s i env)) = sent s
        else fst (triggerRule s i env) = Inr ()
             \<and> stored_alertRules (snd (triggerRule s i env))
                 = Some (alertRules (snd (triggerRule s i env))))
    \<and> (\<forall>C t' ev. cooldown (alertRules s ! i) = Some C \<and> trigger_now env \<noteq> 0
          \<and> trigger_now env < t' \<and> t' < trigger_now env + C * 60 * 1000
        \<longrightarrow> shouldTriggerRule (snd (triggerRule s i env))
              (alertRules (snd (triggerRule s i env)) ! i) t' ev = Inr False)"
proof -
  let ?s' = "snd (triggerRule s i env)"
  have m: "activeAlerts ?s' (rule_id (alertRules s ! i)) = Some (trigger_now env)"
    by (simp add: triggerRule_snd_fields)
  have r: "alertRules ?s' ! i = (alertRules s ! i)\<lparr>lastTriggered := Some (trigger_stamp env)\<rparr>"
    using assms by (simp add: triggerRule_snd_fields)
  have p: "if save_fails env
        then fst (triggerRule s i env) = Inl PersistenceFailure \<and> sent ?s' = sent s
        else fst (triggerRule s i env) = Inr ()
             \<and> stored_alertRules ?s' = Some (alertRules ?s')"
    by (simp add: triggerRule_def saveAlertRules_def Let_def execute_actions_fields)
  have l: "lastTriggered (alertRules ?s' ! i) = Some (trigger_stamp env)"
    by (simp add: r)
  have "shouldTriggerRule ?s' (alertRules ?s' ! i) t' ev = Inr False"
    if "cooldown (alertRules s ! i) = Some C" "trigger_now env \<noteq> 0"
      "trigger_now env < t'" "t' < trigger_now env + C * 60 * 1000" for C t' ev
    using that m by (intro in_cooldown_window [where t = "trigger_now env" and C = C]) (simp_all add: r)
  then have c: "\<forall>C t' ev. cooldown (alertRules s ! i) = Some C \<and> trigger_now env \<noteq> 0
          \<and> trigger_now env < t' \<and> t' < trigger_now env + C * 60 * 1000
        \<longrightarrow> shouldTriggerRule ?s' (alertRules ?s' ! i) t' ev = Inr False"
    by blast
  from m l p c show ?thesis by (intro conjI)
qed

theorem trigger_recorded_before_actions_witness:
  "activeAlerts (snd (triggerRule demo_service 0 (demo_trigger_env (\<lambda>k. True))))
      ''rule_1793577600000'' = Some 1793610000000
   \<and> lastTriggered (alertRules (snd (triggerRule demo_service 0 (demo_trigger_env (\<lambda>k. True)))) ! 0)
       = Some 1793610000001
   \<and> sent (snd (triggerRule demo_service 0 (demo_trigger_env (\<lambda>k. True)))) = []
   \<and> fst (triggerRule demo_service 0 (demo_trigger_env (\<lambda>k. True))) = Inr ()
   \<and> stored_alertRules (snd (triggerRule demo_service 0 (demo_trigger_env (\<lambda>k. True))))
       = Some [demo_rule\<lparr>lastTriggered := Some 1793610000001\<rparr>]
   \<and> shouldTriggerRule (snd (triggerRule demo_service 0 (demo_trigger_env (\<lambda>k. True))))
        (alertRules (snd (triggerRule demo_service 0 (demo_trigger_env (\<lambda>k. True)))) ! 0)
        1793610060000 (\<lambda>c. Inr True) = Inr False"
proof -
  have len: "0 < length (alertRules demo_service)"
    by (simp add: demo_defs)
  have ev: "triggerRule demo_service 0 (demo_trigger_env (\<lambda>k. True))
      = (Inr (), demo_service
           \<lparr>activeAlerts := [''rule_1793577600000'' \<mapsto> 1793610000000],
            alertRules := [demo_rule\<lparr>lastTriggered := Some 1793610000001\<rparr>],
            stored_alertRules := Some [demo_rule\<lparr>lastTriggered := Some 1793610000001\<rparr>]\<rparr>)"
    by (simp add: demo_defs triggerRule_def saveAlertRules_def Let_def executeAction_def
        processTemplate_def)
  from trigger_recorded_before_actions [OF len, of "demo_trigger_env (\<lambda>k. True)"]
  show ?thesis
    by (simp add: ev) (simp add: demo_defs shouldTriggerRule_def in_cooldown_def)
qed

section \<open>Properties of the management operations\<close>

lemma findIndex_None: "findIndex P xs = None \<longleftrightarrow> (\<forall>x\<in>set xs. \<not> P x)"
  by (induction xs) auto

lemma findIndex_Some: "findIndex P xs = Some k \<Longrightarrow> k < length xs \<and> P (xs ! k)"
  by (induction xs arbitrary: k) (auto split: if_splits)

lemma filter_absent: "\<forall>x\<in>set xs. f x \<noteq> k \<Longrightarrow> filter (\<lambda>x. f x \<noteq> k) xs = xs"
  by (induction xs) auto

lemma process_rules_ids:
  "map rule_id (alertRules (process_rules s js envs)) = map rule_id (alertRules s)
   \<and> map rule_enabled (alertRules (process_rules s js envs)) = map rule_enabled (alertRules s)"
  by (induction js arbitrary: s) (auto simp add: triggerRule_ids split: sum.splits)

lemma process_rules_other_ids:
  assumes "\<forall>j\<in>set js. j < length (alertRules s) \<and> rule_id (alertRules s ! j) \<noteq> ident"
  shows "activeAlerts (process_rules s js envs) ident = activeAlerts s ident"
  using assms
proof (induction js arbitrary: s)
  case Nil
  then show ?case by simp
next
  case (Cons i js)
  let ?s' = "snd (triggerRule s i (trigger (envs i)))"
  have ids: "map rule_id (alertRules ?s') = map rule_id (alertRules s)"
    by (rule triggerRule_ids)
  then have len: "length (alertRules ?s') = length (alertRules s)"
    by (metis length_map)
  have "\<forall>j\<in>set js. j < length (alertRules ?s') \<and> rule_id (alertRules ?s' ! j) \<noteq> ident"
  proof
    fix j assume j: "j \<in> set js"
    with Cons.prems have jl: "j < length (alertRules s)" and jn: "rule_id (alertRules s ! j) \<noteq> ident"
      by auto
    have "rule_id (alertRules ?s' ! j) = map rule_id (alertRules ?s') ! j"
      using jl len by simp
    also have "\<dots> = rule_id (alertRules s ! j)" using jl by (simp add: ids)
    finally show "j < length (alertRules ?s') \<and> rule_id (alertRules ?s' ! j) \<noteq> ident"
      using jl jn len by simp
  qed
  from Cons.IH [OF this]
  have fired: "activeAlerts (process_rules ?s' js envs) ident = activeAlerts ?s' ident" .
  have same: "activeAlerts ?s' ident = activeAlerts s ident"
    using Cons.prems by (auto simp add: triggerRule_snd_fields)
  have skipped: "activeAlerts (process_rules s js envs) ident = activeAlerts s ident"
    using Cons.IH [of s] Cons.prems by simp
  show ?case
    using fired same skipped by (simp split: sum.splits)
qed

lemma processAlertRules_disabled_id:
  assumes "\<forall>r\<in>set (alertRules s). rule_id r = ident \<longrightarrow> \<not> rule_enabled r"
  shows "activeAlerts (processAlertRules s envs) ident = activeAlerts s ident"
  unfolding processAlertRules_def
  using assms by (intro process_rules_other_ids) auto

lemma processAlertRules_ids:
  "map rule_id (alertRules (processAlertRules s envs)) = map rule_id (alertRules s)"
  "map rule_enabled (alertRules (processAlertRules s envs)) = map rule_enabled (alertRules s)"
  by (simp_all add: processAlertRules_def process_rules_ids)

lemma disabled_id_preserved:
  assumes "map rule_id (alertRules s') = map rule_id (alertRules s)"
    and "map rule_enabled (alertRules s') = map rule_enabled (alertRules s)"
    and "\<forall>r\<in>set (alertRules s). rule_id r = ident \<longrightarrow> \<not> rule_enabled r"
  shows "\<forall>r\<in>set (alertRules s'). rule_id r = ident \<longrightarrow> \<not> rule_enabled r"
proof
  fix r assume "r \<in> set (alertRules s')"
  then obtain k where k: "k < length (alertRules s')" and r: "r = alertRules s' ! k"
    by (auto simp add: in_set_conv_nth)
  from assms(1) have len: "length (alertRules s') = length (alertRules s)" by (metis length_map)
  have i: "rule_id r = rule_id (alertRules s ! k)"
    using k len r nth_map [of k "alertRules s'" rule_id] nth_map [of k "alertRules s" rule_id] assms(1)
    by simp
  have e: "rule_enabled r = rule_enabled (alertRules s ! k)"
    using k len r nth_map [of k "alertRules s'" rule_enabled] nth_map [of k "alertRules s" rule_enabled]
      assms(2) by simp
  from k len have "alertRules s ! k \<in> set (alertRules s)" by simp
  with assms(3) i e show "rule_id r = ident \<longrightarrow> \<not> rule_enabled r" by auto
qed

lemma ticks_disabled_id:
  assumes "\<forall>r\<in>set (alertRules s). rule_id r = ident \<longrightarrow> \<not> rule_enabled r"
  shows "activeAlerts (foldl processAlertRules s ticks) ident = activeAlerts s ident
    \<and> map rule_id (alertRules (foldl processAlertRules s ticks)) = map rule_id (alertRules s)"
  using assms
proof (induction ticks arbitrary: s)
  case Nil
  then show ?case by simp
next
  case (Cons envs ticks)
  let ?s' = "processAlertRules s envs"
  have "\<forall>r\<in>set (alertRules ?s'). rule_id r = ident \<longrightarrow> \<not> rule_enabled r"
    using processAlertRules_ids [of s envs] Cons.prems by (rule disabled_id_preserved)
  from Cons.IH [OF this]
  have "activeAlerts (foldl processAlertRules ?s' ticks) ident = activeAlerts ?s' ident"
    and "map rule_id (alertRules (foldl processAlertRules ?s' ticks)) = map rule_id (alertRules ?s')"
    by simp_all
  moreover have "activeAlerts ?s' ident = activeAlerts s ident"
    using Cons.prems by (rule processAlertRules_disabled_id)
  moreover have "map rule_id (alertRules ?s') = map rule_id (alertRules s)"
    by (rule processAlertRules_ids)
  ultimately show ?case by (simp only: foldl_Cons)
qed

lemma createAlertRule_fields:
  "alertRules (snd (createAlertRule s rule now_id now_created fails))
     = alertRules s @ [rule\<lparr>rule_id := ''rule_'' @ show_int now_id, rule_createdAt := now_created\<rparr>]"
  "activeAlerts (snd (createAlertRule s rule now_id now_created fails)) = activeAlerts s"
  by (simp_all add: createAlertRule_def saveAlertRules_def activateRule_def Let_def)

lemma deleteAlertRule_fields:
  "alertRules (snd (deleteAlertRule s ident fails))
     = filter (\<lambda>rule. rule_id rule \<noteq> ident) (alertRules s)"
  "activeAlerts (snd (deleteAlertRule s ident fails)) = (activeAlerts s)(ident := None)"
  "fst (deleteAlertRule s ident fails) = (if fails then Inl PersistenceFailure else Inr ())"
  by (simp_all add: deleteAlertRule_def deactivateRule_def saveAlertRules_def Let_def)

lemma ticks_absent_id:
  assumes "\<forall>r\<in>set (alertRules s). rule_id r \<noteq> ident"
  shows "activeAlerts (foldl processAlertRules s ticks) ident = activeAlerts s ident
    \<and> (\<forall>r\<in>set (alertRules (foldl processAlertRules s ticks)). rule_id r \<noteq> ident)"
proof -
  from assms have d: "\<forall>r\<in>set (alertRules s). rule_id r = ident \<longrightarrow> \<not> rule_enabled r"
    by simp
  from ticks_disabled_id [OF d, of ticks]
  have a: "activeAlerts (foldl processAlertRules s ticks) ident = activeAlerts s ident"
    and m: "map rule_id (alertRules (foldl processAlertRules s ticks)) = map rule_id (alertRules s)"
    by simp_all
  from m have "rule_id ` set (alertRules (foldl processAlertRules s ticks))
      = rule_id ` set (alertRules s)"
    by (metis set_map)
  with assms have "\<forall>r\<in>set (alertRules (foldl processAlertRules s ticks)). rule_id r \<noteq> ident"
    by (metis image_iff)
  with a show ?thesis by simp
qed

lemma updateAlertRule_disable:
  assumes "findIndex (\<lambda>rule. rule_id rule = ident) (alertRules s) = Some k"
    and "rule_enabled (alertRules s ! k)"
    and "upd_rule_enabled u = Some False"
  shows "fst (updateAlertRule s ident u False) = Inr ()"
    and "activeAlerts (snd (updateAlertRule s ident u False)) ident = None"
    and "\<not> rule_enabled (alertRules (snd (updateAlertRule s ident u False)) ! k)"
proof -
  from findIndex_Some [OF assms(1)] have k: "k < length (alertRules s)" by simp
  have e: "\<not> rule_enabled (merge_rule (alertRules s ! k) u)"
    using assms(3) by (simp add: merge_rule_def override_def)
  have "updateAlertRule s ident u False
      = (Inr (), deactivateRule
           (s\<lparr>alertRules := (alertRules s)[k := merge_rule (alertRules s ! k) u],
              stored_alertRules := Some ((alertRules s)[k := merge_rule (alertRules s ! k) u])\<rparr>)
           ident)"
    using assms(1,2) k e by (simp add: updateAlertRule_def saveAlertRules_def Let_def)
  then show "fst (updateAlertRule s ident u False) = Inr ()"
    and "activeAlerts (snd (updateAlertRule s ident u False)) ident = None"
    and "\<not> rule_enabled (alertRules (snd (updateAlertRule s ident u False)) ! k)"
    using k e by (simp_all add: deactivateRule_def)
qed

text \<open>
  C9, as the code has it. After \<open>deleteAlertRule\<close> the cooldown map has no entry for the id
  and no rule of the list has the id, whether or not the storage write succeeded; this stays
  so through any number of later ticks of the monitor, also when a rule (of any name) is
  created in between under another id, so that the deleted rule never fires again. An
  \<open>updateAlertRule\<close> that disables an enabled rule and completes removes the entry of its
  id as well; the rule stays in the list, disabled, and while every rule of that id is
  disabled no tick records a trigger for it.
\<close>

theorem deleted_rule_never_triggers:
  "activeAlerts (snd (deleteAlertRule s ident fails)) ident = None
   \<and> (\<forall>r\<in>set (alertRules (snd (deleteAlertRule s ident fails))). rule_id r \<noteq> ident)
   \<and> (\<forall>ticks.
         activeAlerts (foldl processAlertRules (snd (deleteAlertRule s ident fails)) ticks) ident
           = None
         \<and> (\<forall>r\<in>set (alertRules
                       (foldl processAlertRules (snd (deleteAlertRule s ident fails)) ticks)).
               rule_id r \<noteq> ident))
   \<and> (\<forall>rule now_id now_created fails' ticks.
         ''rule_'' @ show_int now_id \<noteq> ident \<longrightarrow>
           activeAlerts
             (foldl processAlertRules
                (snd (createAlertRule (snd (deleteAlertRule s ident fails))
                        rule now_id now_created fails')) ticks) ident = None
           \<and> (\<forall>r\<in>set (alertRules
                  (foldl processAlertRules
                     (snd (createAlertRule (snd (deleteAlertRule s ident fails))
                             rule now_id now_created fails')) ticks)).
                 rule_id r \<noteq> ident))
   \<and> (\<forall>k u ticks.
         findIndex (\<lambda>rule. rule_id rule = ident) (alertRules s) = Some k
         \<and> rule_enabled (alertRules s ! k) \<and> upd_rule_enabled u = Some False \<longrightarrow>
           fst (updateAlertRule s ident u False) = Inr ()
           \<and> activeAlerts (snd (updateAlertRule s ident u False)) ident = None
           \<and> \<not> rule_enabled (alertRules (snd (updateAlertRule s ident u False)) ! k)
           \<and> ((\<forall>r\<in>set (alertRules (snd (updateAlertRule s ident u False))).
                  rule_id r = ident \<longrightarrow> \<not> rule_enabled r) \<longrightarrow>
                activeAlerts
                  (foldl processAlertRules (snd (updateAlertRule s ident u False)) ticks) ident
                  = None))"
proof -
  let ?d = "snd (deleteAlertRule s ident fails)"
  have a: "activeAlerts ?d ident = None"
    by (simp add: deleteAlertRule_fields)
  have b: "\<forall>r\<in>set (alertRules ?d). rule_id r \<noteq> ident"
    by (simp add: deleteAlertRule_fields)
  have c: "activeAlerts (foldl processAlertRules ?d ticks) ident = None
      \<and> (\<forall>r\<in>set (alertRules (foldl processAlertRules ?d ticks)). rule_id r \<noteq> ident)" for ticks
    using ticks_absent_id [OF b, of ticks] a by simp
  have d: "activeAlerts (foldl processAlertRules
               (snd (createAlertRule ?d rule now_id now_created fails')) ticks) ident = None
      \<and> (\<forall>r\<in>set (alertRules (foldl processAlertRules
               (snd (createAlertRule ?d rule now_id now_created fails')) ticks)).
            rule_id r \<noteq> ident)"
    if "''rule_'' @ show_int now_id \<noteq> ident" for rule now_id now_created fails' ticks
  proof -
    let ?c = "snd (createAlertRule ?d rule now_id now_created fails')"
    have "\<forall>r\<in>set (alertRules ?c). rule_id r \<noteq> ident"
      using b that by (simp add: createAlertRule_fields)
    from ticks_absent_id [OF this, of ticks] a show ?thesis
      by (simp add: createAlertRule_fields)
  qed
  have e: "fst (updateAlertRule s ident u False) = Inr ()
      \<and> activeAlerts (snd (updateAlertRule s ident u False)) ident = None
      \<and> \<not> rule_enabled (alertRules (snd (updateAlertRule s ident u False)) ! k)
      \<and> ((\<forall>r\<in>set (alertRules (snd (updateAlertRule s ident u False))).
             rule_id r = ident \<longrightarrow> \<not> rule_enabled r) \<longrightarrow>
           activeAlerts (foldl processAlertRules (snd (updateAlertRule s ident u False)) ticks)
             ident = None)"
    if "findIndex (\<lambda>rule. rule_id rule = ident) (alertRules s) = Some k
        \<and> rule_enabled (alertRules s ! k) \<and> upd_rule_enabled u = Some False" for k u ticks
  proof -
    from that have f: "findIndex (\<lambda>rule. rule_id rule = ident) (alertRules s) = Some k"
      and g: "rule_enabled (alertRules s ! k)" and h: "upd_rule_enabled u = Some False"
      by simp_all
    note upd = updateAlertRule_disable [OF f g h]
    have "activeAlerts (foldl processAlertRules (snd (updateAlertRule s ident u False)) ticks)
        ident = None"
      if "\<forall>r\<in>set (alertRules (snd (updateAlertRule s ident u False))).
            rule_id r = ident \<longrightarrow> \<not> rule_enabled r"
      using ticks_disabled_id [OF that, of ticks] upd(2) by simp
    with upd show ?thesis by blast
  qed
  from a b c d e show ?thesis by blast
qed

lemmas demo2_defs =
  demo_fired_def demo_tick_def no_rule_updates_def no_template_updates_def
  no_notification_updates_def demo_schedule_env_def

theorem deleted_rule_never_triggers_witness:
  "activeAlerts demo_fired ''rule_1793577600000'' = Some 1793610000000
   \<and> activeAlerts (snd (deleteAlertRule demo_fired ''rule_1793577600000'' False))
        ''rule_1793577600000'' = None
   \<and> alertRules (snd (deleteAlertRule demo_fired ''rule_1793577600000'' False)) = []
   \<and> ''rule_'' @ show_int 1793610400000 \<noteq> ''rule_1793577600000''
   \<and> activeAlerts
        (foldl processAlertRules
           (snd (createAlertRule (snd (deleteAlertRule demo_fired ''rule_1793577600000'' False))
                   demo_rule 1793610400000 1793610400000 False)) [demo_tick])
        ''rule_1793577600000'' = None
   \<and> activeAlerts (snd (updateAlertRule demo_fired ''rule_1793577600000''
                          (no_rule_updates\<lparr>upd_rule_enabled := Some False\<rparr>) False))
        ''rule_1793577600000'' = None
   \<and> activeAlerts
        (foldl processAlertRules
           (snd (updateAlertRule demo_fired ''rule_1793577600000''
                   (no_rule_updates\<lparr>upd_rule_enabled := Some False\<rparr>) False)) [demo_tick])
        ''rule_1793577600000'' = None"
proof -
  note t = deleted_rule_never_triggers [of demo_fired "''rule_1793577600000''" False]
  have n: "show_int 1793610400000 = ''1793610400000''"
    by (simp add: show_int_def show_nat.simps)
  have fresh: "''rule_'' @ show_int 1793610400000 \<noteq> ''rule_1793577600000''"
    by (simp add: n)
  have found: "findIndex (\<lambda>rule. rule_id rule = ''rule_1793577600000'') (alertRules demo_fired) = Some 0
      \<and> rule_enabled (alertRules demo_fired ! 0)
      \<and> upd_rule_enabled (no_rule_updates\<lparr>upd_rule_enabled := Some False\<rparr>) = Some False"
    by (simp add: demo_defs demo2_defs)
  have a: "activeAlerts demo_fired ''rule_1793577600000'' = Some 1793610000000"
    by (simp add: demo_defs demo2_defs)
  have b: "alertRules (snd (deleteAlertRule demo_fired ''rule_1793577600000'' False)) = []"
    by (simp add: demo_defs demo2_defs deleteAlertRule_fields)
  from t have c: "activeAlerts (snd (deleteAlertRule demo_fired ''rule_1793577600000'' False))
        ''rule_1793577600000'' = None"
    by (rule conjunct1)
  from t fresh have d: "activeAlerts
        (foldl processAlertRules
           (snd (createAlertRule (snd (deleteAlertRule demo_fired ''rule_1793577600000'' False))
                   demo_rule 1793610400000 1793610400000 False)) [demo_tick])
        ''rule_1793577600000'' = None"
    by blast
  from t found have e: "activeAlerts (snd (updateAlertRule demo_fired ''rule_1793577600000''
                          (no_rule_updates\<lparr>upd_rule_enabled := Some False\<rparr>) False))
        ''rule_1793577600000'' = None"
    by blast
  have off: "\<forall>r\<in>set (alertRules (snd (updateAlertRule demo_fired ''rule_1793577600000''
                                      (no_rule_updates\<lparr>upd_rule_enabled := Some False\<rparr>) False))).
        rule_id r = ''rule_1793577600000'' \<longrightarrow> \<not> rule_enabled r"
    by (simp add: demo_defs demo2_defs updateAlertRule_def saveAlertRules_def deactivateRule_def
        merge_rule_def override_def)
  from t found off have f: "activeAlerts
        (foldl processAlertRules
           (snd (updateAlertRule demo_fired ''rule_1793577600000''
                   (no_rule_updates\<lparr>upd_rule_enabled := Some False\<rparr>) False)) [demo_tick])
        ''rule_1793577600000'' = None"
    by blast
  from a b c d e f fresh show ?thesis by (intro conjI)
qed

text \<open>
  C9 read as saying that the rule list has no rule of the id after the rule has been
  disabled fails: \<open>updateAlertRule\<close> keeps the disabled rule in the list.
\<close>

theorem disabled_rule_stays_listed_counterexample:
  "fst (updateAlertRule demo_fired ''rule_1793577600000''
          (no_rule_updates\<lparr>upd_rule_enabled := Some False\<rparr>) False) = Inr ()
   \<and> map rule_id (alertRules (snd (updateAlertRule demo_fired ''rule_1793577600000''
                                     (no_rule_updates\<lparr>upd_rule_enabled := Some False\<rparr>) False)))
       = [''rule_1793577600000'']
   \<and> map rule_enabled (alertRules (snd (updateAlertRule demo_fired ''rule_1793577600000''
                                          (no_rule_updates\<lparr>upd_rule_enabled := Some False\<rparr>) False)))
       = [False]"
  by (simp add: demo_defs demo2_defs updateAlertRule_def saveAlertRules_def deactivateRule_def
      merge_rule_def override_def)

text \<open>
  C6, as the code has it. For an id that no element of the collection has, the three update
  operations reject with their not-found error and leave the service as it was. The three
  delete operations do not test for the id: they leave the collection unchanged and return
  normally, unless the storage write (or, for a scheduled notification, the scheduler's
  cancel before it) fails.
\<close>

theorem absent_id_update_rejects_delete_completes:
  "((\<forall>r\<in>set (alertRules s). rule_id r \<noteq> ident) \<longrightarrow>
      updateAlertRule s ident ru fails = (Inl (NotFound ''Alert rule not found''), s)
      \<and> fst (deleteAlertRule s ident fails) = (if fails then Inl PersistenceFailure else Inr ())
      \<and> alertRules (snd (deleteAlertRule s ident fails)) = alertRules s)
   \<and> ((\<forall>t\<in>set (templates s). tmpl_id t \<noteq> ident) \<longrightarrow>
      updateTemplate s ident tu fails = (Inl (NotFound ''Template not found''), s)
      \<and> fst (deleteTemplate s ident fails) = (if fails then Inl PersistenceFailure else Inr ())
      \<and> templates (snd (deleteTemplate s ident fails)) = templates s)
   \<and> ((\<forall>n\<in>set (scheduledNotifications s). notif_id n \<noteq> ident) \<longrightarrow>
      updateScheduledNotification s ident nu env
        = (Inl (NotFound ''Scheduled notification not found''), s)
      \<and> fst (deleteScheduledNotification s ident env)
        = (if scheduler_fails env then Inl SchedulerFailure
           else if storage_fails env then Inl PersistenceFailure else Inr ())
      \<and> scheduledNotifications (snd (deleteScheduledNotification s ident env))
        = scheduledNotifications s)"
proof (intro conjI impI)
  assume h: "\<forall>r\<in>set (alertRules s). rule_id r \<noteq> ident"
  then have "findIndex (\<lambda>rule. rule_id rule = ident) (alertRules s) = None"
    by (simp add: findIndex_None)
  then show "updateAlertRule s ident ru fails = (Inl (NotFound ''Alert rule not found''), s)"
    by (simp add: updateAlertRule_def)
  show "fst (deleteAlertRule s ident fails) = (if fails then Inl PersistenceFailure else Inr ())"
    by (simp add: deleteAlertRule_fields)
  show "alertRules (snd (deleteAlertRule s ident fails)) = alertRules s"
    using h by (simp add: deleteAlertRule_fields filter_absent)
next
  assume h: "\<forall>t\<in>set (templates s). tmpl_id t \<noteq> ident"
  then have "findIndex (\<lambda>template. tmpl_id template = ident) (templates s) = None"
    by (simp add: findIndex_None)
  then show "updateTemplate s ident tu fails = (Inl (NotFound ''Template not found''), s)"
    by (simp add: updateTemplate_def)
  show "fst (deleteTemplate s ident fails) = (if fails then Inl PersistenceFailure else Inr ())"
    by (simp add: deleteTemplate_def saveTemplates_def)
  show "templates (snd (deleteTemplate s ident fails)) = templates s"
    using h by (simp add: deleteTemplate_def saveTemplates_def filter_absent)
next
  assume h: "\<forall>n\<in>set (scheduledNotifications s). notif_id n \<noteq> ident"
  then have "findIndex (\<lambda>notif. notif_id notif = ident) (scheduledNotifications s) = None"
    by (simp add: findIndex_None)
  then show "updateScheduledNotification s ident nu env
      = (Inl (NotFound ''Scheduled notification not found''), s)"
    by (simp add: updateScheduledNotification_def)
  show "fst (deleteScheduledNotification s ident env)
      = (if scheduler_fails env then Inl SchedulerFailure
         else if storage_fails env then Inl PersistenceFailure else Inr ())"
    by (simp add: deleteScheduledNotification_def cancelScheduledNotification_def
        saveScheduledNotifications_def)
  show "scheduledNotifications (snd (deleteScheduledNotification s ident env))
      = scheduledNotifications s"
    using h by (simp add: deleteScheduledNotification_def cancelScheduledNotification_def
        saveScheduledNotifications_def filter_absent)
qed

theorem absent_id_update_rejects_delete_completes_witness:
  "updateAlertRule demo_service ''rule_0'' no_rule_updates False
     = (Inl (NotFound ''Alert rule not found''), demo_service)
   \<and> fst (deleteAlertRule demo_service ''rule_0'' False) = Inr ()
   \<and> alertRules (snd (deleteAlertRule demo_service ''rule_0'' False)) = [demo_rule]
   \<and> updateTemplate demo_service ''template_0'' no_template_updates False
     = (Inl (NotFound ''Template not found''), demo_service)
   \<and> fst (deleteTemplate demo_service ''template_0'' False) = Inr ()
   \<and> templates (snd (deleteTemplate demo_service ''template_0'' False)) = []
   \<and> updateScheduledNotification demo_service ''scheduled_0'' no_notification_updates
        demo_schedule_env
     = (Inl (NotFound ''Scheduled notification not found''), demo_service)
   \<and> fst (deleteScheduledNotification demo_service ''scheduled_0'' demo_schedule_env) = Inr ()
   \<and> scheduledNotifications
        (snd (deleteScheduledNotification demo_service ''scheduled_0'' demo_schedule_env)) = []"
proof -
  have r: "\<forall>r\<in>set (alertRules demo_service). rule_id r \<noteq> ''rule_0''"
    and t: "\<forall>t\<in>set (templates demo_service). tmpl_id t \<noteq> ''template_0''"
    and n: "\<forall>n\<in>set (scheduledNotifications demo_service). notif_id n \<noteq> ''scheduled_0''"
    by (simp_all add: demo_defs)
  have v: "alertRules demo_service = [demo_rule]" "templates demo_service = []"
    "scheduledNotifications demo_service = []"
    "\<not> scheduler_fails demo_schedule_env" "\<not> storage_fails demo_schedule_env"
    by (simp_all add: demo_service_def empty_service_def demo_schedule_env_def)
  from absent_id_update_rejects_delete_completes
    [of demo_service "''rule_0''" no_rule_updates False]
    absent_id_update_rejects_delete_completes
    [of demo_service "''template_0''" _ False no_template_updates]
    absent_id_update_rejects_delete_completes
    [of demo_service "''scheduled_0''" _ _ _ no_notification_updates demo_schedule_env]
    r t n
  show ?thesis by (simp add: v)
qed

text \<open>
  C6 as stated for the delete operations fails: \<open>deleteAlertRule\<close> with an id that no
  rule has returns normally.
\<close>

theorem delete_absent_rule_counterexample:
  "''rule_0'' \<notin> set (map rule_id (alertRules demo_service))
   \<and> fst (deleteAlertRule demo_service ''rule_0'' False) = Inr ()"
  by (simp add: demo_defs deleteAlertRule_def deactivateRule_def saveAlertRules_def)

section \<open>Properties of the calendar arithmetic\<close>

lemma div_bounds:
  fixes x n :: int
  assumes "0 < n"
  shows "n * (x div n) \<le> x" and "x < n * (x div n) + n"
proof -
  have "x = n * (x div n) + x mod n" by simp
  moreover have "0 \<le> x mod n" and "x mod n < n" using assms by simp_all
  ultimately show "n * (x div n) \<le> x" and "x < n * (x div n) + n" by linarith+
qed

lemma div_succ:
  fixes x n :: int
  assumes "0 < n"
  shows "(x + 1) div n = x div n + (if (x + 1) mod n = 0 then 1 else 0)"
proof -
  have e: "x = n * (x div n) + x mod n" by simp
  have r: "0 \<le> x mod n" "x mod n < n" using assms by simp_all
  show ?thesis
  proof (cases "x mod n + 1 = n")
    case True
    have "x + 1 = n * (x div n) + (x mod n + 1)" using e by linarith
    also have "\<dots> = n * (x div n + 1) + 0" using True by (simp add: distrib_left)
    finally have s: "x + 1 = n * (x div n + 1) + 0" .
    from int_div_pos_eq [OF s] int_mod_pos_eq [OF s] assms show ?thesis by simp
  next
    case False
    have s: "x + 1 = n * (x div n) + (x mod n + 1)" using e by linarith
    have b: "0 \<le> x mod n + 1" "x mod n + 1 < n" using r False by linarith+
    from int_div_pos_eq [OF s b] int_mod_pos_eq [OF s b] r show ?thesis by simp
  qed
qed

lemma DaysInYear_range: "DaysInYear y = 365 \<or> DaysInYear y = 366"
  by (simp add: DaysInYear_def)

lemma leap_mods:
  fixes y :: int
  shows "(y - 1968) mod 4 = 0 \<longleftrightarrow> y mod 4 = 0"
    and "(y - 1900) mod 100 = 0 \<longleftrightarrow> y mod 100 = 0"
    and "(y - 1600) mod 400 = 0 \<longleftrightarrow> y mod 400 = 0"
    and "y mod 400 = 0 \<Longrightarrow> y mod 100 = 0"
    and "y mod 100 = 0 \<Longrightarrow> y mod 4 = 0"
proof -
  have "(y - 1968) mod 4 = (y + 4 * (- 492)) mod 4" by simp
  also have "\<dots> = y mod 4" by (rule mod_mult_self2)
  finally show "(y - 1968) mod 4 = 0 \<longleftrightarrow> y mod 4 = 0" by simp
  have "(y - 1900) mod 100 = (y + 100 * (- 19)) mod 100" by simp
  also have "\<dots> = y mod 100" by (rule mod_mult_self2)
  finally show "(y - 1900) mod 100 = 0 \<longleftrightarrow> y mod 100 = 0" by simp
  have "(y - 1600) mod 400 = (y + 400 * (- 4)) mod 400" by simp
  also have "\<dots> = y mod 400" by (rule mod_mult_self2)
  finally show "(y - 1600) mod 400 = 0 \<longleftrightarrow> y mod 400 = 0" by simp
  have "y mod 400 mod 100 = y mod 100" by (rule mod_mod_cancel) simp
  then show "y mod 400 = 0 \<Longrightarrow> y mod 100 = 0" by (metis mod_0)
  have "y mod 100 mod 4 = y mod 4" by (rule mod_mod_cancel) simp
  then show "y mod 100 = 0 \<Longrightarrow> y mod 4 = 0" by (metis mod_0)
qed

lemma DayFromYear_Suc: "DayFromYear (y + 1) = DayFromYear y + DaysInYear y"
proof -
  have a: "(y + 1 - 1969) div 4 = (y - 1969) div 4 + (if y mod 4 = 0 then 1 else 0)"
    using div_succ [of 4 "y - 1969"] leap_mods(1) [of y] by (simp add: algebra_simps)
  have b: "(y + 1 - 1901) div 100 = (y - 1901) div 100 + (if y mod 100 = 0 then 1 else 0)"
    using div_succ [of 100 "y - 1901"] leap_mods(2) [of y] by (simp add: algebra_simps)
  have c: "(y + 1 - 1601) div 400 = (y - 1601) div 400 + (if y mod 400 = 0 then 1 else 0)"
    using div_succ [of 400 "y - 1601"] leap_mods(3) [of y] by (simp add: algebra_simps)
  show ?thesis
    unfolding DayFromYear_def DaysInYear_def a b c
    using leap_mods(4,5) [of y] by auto
qed


lemma year_estimate_low:
  assumes "146097 * q \<le> 400 * d"
  shows "DayFromYear (1969 + q) \<le> d"
proof -
  define a where "a = q div 4"
  define b where "b = (q + 68) div 100"
  define c where "c = (q + 368) div 400"
  have e: "DayFromYear (1969 + q) = 365 * q - 365 + a - b + c"
    by (simp add: DayFromYear_def algebra_simps a_def b_def c_def)
  have "4 * a \<le> q" unfolding a_def by (rule div_bounds) simp
  moreover have "q + 68 < 100 * b + 100" unfolding b_def by (rule div_bounds) simp
  moreover have "400 * c \<le> q + 368" unfolding c_def by (rule div_bounds) simp
  ultimately show ?thesis using assms unfolding e by linarith
qed

lemma year_estimate_high:
  assumes "400 * d < 146097 * q + 146097"
  shows "d < DayFromYear (1972 + q)"
proof -
  define a where "a = (q + 3) div 4"
  define b where "b = (q + 71) div 100"
  define c where "c = (q + 371) div 400"
  have e: "DayFromYear (1972 + q) = 365 * q + 730 + a - b + c"
    by (simp add: DayFromYear_def algebra_simps a_def b_def c_def)
  have "q + 3 < 4 * a + 4" unfolding a_def by (rule div_bounds) simp
  moreover have "100 * b \<le> q + 71" unfolding b_def by (rule div_bounds) simp
  moreover have "q + 371 < 400 * c + 400" unfolding c_def by (rule div_bounds) simp
  ultimately show ?thesis using assms unfolding e by linarith
qed

lemma YearFromDay_correct:
  shows "DayFromYear (YearFromDay d) \<le> d" and "d < DayFromYear (YearFromDay d + 1)"
proof -
  define q where "q = (d * 400) div 146097"
  have lo: "146097 * q \<le> 400 * d"
    using div_bounds(1) [of 146097 "d * 400"] by (simp add: q_def mult.commute)
  have hi: "400 * d < 146097 * q + 146097"
    using div_bounds(2) [of 146097 "d * 400"] by (simp add: q_def mult.commute)
  have l: "DayFromYear (1970 + q - 1) \<le> d"
    using year_estimate_low [OF lo] by (simp add: algebra_simps)
  have h: "d < DayFromYear (1970 + q + 1 + 1)"
    using year_estimate_high [OF hi] by (simp add: algebra_simps)
  have y: "YearFromDay d =
      (if DayFromYear (1970 + q + 1) \<le> d then 1970 + q + 1
       else if DayFromYear (1970 + q) \<le> d then 1970 + q else 1970 + q - 1)"
    by (simp add: YearFromDay_def q_def Let_def)
  show "DayFromYear (YearFromDay d) \<le> d"
    unfolding y using l by simp
  show "d < DayFromYear (YearFromDay d + 1)"
    unfolding y using h by (simp add: not_le)
qed

lemma DayFromYear_less:
  assumes "y < z"
  shows "DayFromYear y < DayFromYear z"
proof -
  have "DayFromYear y < DayFromYear (y + 1 + int n)" for n
  proof (induction n)
    case 0
    show ?case using DayFromYear_Suc [of y] DaysInYear_range [of y] by auto
  next
    case (Suc n)
    have "DayFromYear (y + 1 + int (Suc n)) = DayFromYear (y + 1 + int n) + DaysInYear (y + 1 + int n)"
      using DayFromYear_Suc [of "y + 1 + int n"] by (simp add: algebra_simps)
    with Suc DaysInYear_range [of "y + 1 + int n"] show ?case by auto
  qed
  from this [of "nat (z - y - 1)"] assms show ?thesis by simp
qed

lemma YearFromDay_unique:
  assumes "DayFromYear y \<le> d" and "d < DayFromYear (y + 1)"
  shows "YearFromDay d = y"
proof (rule ccontr)
  assume n: "YearFromDay d \<noteq> y"
  show False
  proof (cases "YearFromDay d < y")
    case True
    then have "YearFromDay d + 1 \<le> y" by simp
    then have "DayFromYear (YearFromDay d + 1) \<le> DayFromYear y"
      using DayFromYear_less [of "YearFromDay d + 1" y] by (cases "YearFromDay d + 1 = y") auto
    with YearFromDay_correct(2) [of d] assms(1) show False by linarith
  next
    case False
    with n have "y + 1 \<le> YearFromDay d" by simp
    then have "DayFromYear (y + 1) \<le> DayFromYear (YearFromDay d)"
      using DayFromYear_less [of "y + 1" "YearFromDay d"] by (cases "y + 1 = YearFromDay d") auto
    with YearFromDay_correct(1) [of d] assms(2) show False by linarith
  qed
qed

lemma DayWithinYear_range:
  shows "0 \<le> DayWithinYear d" and "DayWithinYear d < 365 + InLeapYear (YearFromDay d)"
proof -
  show "0 \<le> DayWithinYear d"
    using YearFromDay_correct(1) [of d] by (simp add: DayWithinYear_def)
  have "DaysInYear (YearFromDay d) = 365 + InLeapYear (YearFromDay d)"
    using DaysInYear_range [of "YearFromDay d"] by (auto simp add: InLeapYear_def)
  then show "DayWithinYear d < 365 + InLeapYear (YearFromDay d)"
    using YearFromDay_correct(2) [of d] DayFromYear_Suc [of "YearFromDay d"]
    by (simp add: DayWithinYear_def)
qed

lemma InLeapYear_range: "InLeapYear y = 0 \<or> InLeapYear y = 1"
  by (simp add: InLeapYear_def)

lemma MonthFromDay_range: "0 \<le> MonthFromDay d \<and> MonthFromDay d \<le> 11"
  by (simp add: MonthFromDay_def Let_def)

lemma MakeDay_in_range:
  assumes "0 \<le> m" and "m \<le> 11"
  shows "MakeDay y m dt = DayFromYear y + monthStart m (InLeapYear y) + dt - 1"
  using assms by (simp add: MakeDay_def Let_def)

lemma MakeDay_of_day:
  "MakeDay (YearFromDay d) (MonthFromDay d) (DateFromDay d + k) = d + k"
  using MonthFromDay_range [of d]
  by (simp add: MakeDay_in_range DateFromDay_def DayWithinYear_def)

lemma monthStart_next:
  assumes "0 \<le> m" and "m < 11"
  shows "monthStart (m + 1) (InLeapYear y) = monthStart m (InLeapYear y) + DaysInMonth y m"
proof -
  from assms have "m = 0 \<or> m = 1 \<or> m = 2 \<or> m = 3 \<or> m = 4 \<or> m = 5 \<or> m = 6 \<or> m = 7
      \<or> m = 8 \<or> m = 9 \<or> m = 10" by arith
  then show ?thesis
    by (elim disjE) (simp_all add: monthStart_def DaysInMonth_def)
qed

lemma monthStart_december: "monthStart 11 (InLeapYear y) + DaysInMonth y 11 = DaysInYear y"
  using DaysInYear_range [of y] by (auto simp add: monthStart_def DaysInMonth_def InLeapYear_def)

lemma MakeDay_next_month:
  assumes "0 \<le> m" and "m \<le> 11"
  shows "MakeDay y (m + 1) dt = MakeDay y m 1 + DaysInMonth y m + dt - 1"
proof (cases "m = 11")
  case True
  have "MakeDay y 12 dt = DayFromYear (y + 1) + dt - 1"
    by (simp add: MakeDay_def Let_def monthStart_def)
  then show ?thesis
    using True monthStart_december [of y] DayFromYear_Suc [of y]
    by (simp add: MakeDay_in_range)
next
  case False
  with assms have "m < 11" by simp
  with assms show ?thesis
    by (simp add: MakeDay_in_range monthStart_next)
qed

lemma DateFromDay_range:
  shows "1 \<le> DateFromDay d"
    and "DateFromDay d \<le> DaysInMonth (YearFromDay d) (MonthFromDay d)"
proof -
  define w where "w = DayWithinYear d"
  define l where "l = InLeapYear (YearFromDay d)"
  have w: "0 \<le> w" "w < 365 + l" and l: "l = 0 \<or> l = 1"
    using DayWithinYear_range [of d] InLeapYear_range [of "YearFromDay d"]
    by (simp_all add: w_def l_def)
  have m: "MonthFromDay d =
      (if w < 31 then 0 else if w < 59 + l then 1 else if w < 90 + l then 2
       else if w < 120 + l then 3 else if w < 151 + l then 4 else if w < 181 + l then 5
       else if w < 212 + l then 6 else if w < 243 + l then 7 else if w < 273 + l then 8
       else if w < 304 + l then 9 else if w < 334 + l then 10 else 11)"
    by (simp add: MonthFromDay_def Let_def w_def l_def)
  have dt: "DateFromDay d = w - monthStart (MonthFromDay d) l + 1"
    by (simp add: DateFromDay_def w_def l_def)
  have dm: "DaysInMonth (YearFromDay d) k = (if k = 1 then 28 + l
      else if k = 3 \<or> k = 5 \<or> k = 8 \<or> k = 10 then 30 else 31)" for k
    by (simp add: DaysInMonth_def l_def)
  show "1 \<le> DateFromDay d"
    unfolding dt m using w l by (auto simp add: monthStart_def)
  show "DateFromDay d \<le> DaysInMonth (YearFromDay d) (MonthFromDay d)"
    unfolding dt dm unfolding m using w l by (auto simp add: monthStart_def)
qed

lemma civil_of_MakeDay:
  assumes "0 \<le> m" and "m \<le> 11" and "1 \<le> dt" and "dt \<le> DaysInMonth y m"
  shows "YearFromDay (MakeDay y m dt) = y"
    and "MonthFromDay (MakeDay y m dt) = m"
    and "DateFromDay (MakeDay y m dt) = dt"
proof -
  define l where "l = InLeapYear y"
  define x where "x = MakeDay y m dt"
  have l: "l = 0 \<or> l = 1" using InLeapYear_range [of y] by (simp add: l_def)
  have x: "x = DayFromYear y + monthStart m l + dt - 1"
    using assms(1,2) by (simp add: x_def l_def MakeDay_in_range)
  have diy: "DaysInYear y = 365 + l"
    using DaysInYear_range [of y] by (auto simp add: InLeapYear_def l_def)
  have dm: "DaysInMonth y m = (if m = 1 then 28 + l
      else if m = 3 \<or> m = 5 \<or> m = 8 \<or> m = 10 then 30 else 31)"
    by (simp add: DaysInMonth_def l_def)
  from assms(1,2) have cases: "m = 0 \<or> m = 1 \<or> m = 2 \<or> m = 3 \<or> m = 4 \<or> m = 5 \<or> m = 6
      \<or> m = 7 \<or> m = 8 \<or> m = 9 \<or> m = 10 \<or> m = 11" by arith
  have lo: "0 \<le> monthStart m l + dt - 1"
    using cases assms(3) l by (elim disjE) (auto simp add: monthStart_def)
  have hi: "monthStart m l + dt - 1 < 365 + l"
    using cases assms(4) l unfolding dm by (elim disjE) (auto simp add: monthStart_def)
  have y: "YearFromDay x = y"
    using lo hi by (intro YearFromDay_unique) (simp_all add: x DayFromYear_Suc diy)
  then show "YearFromDay (MakeDay y m dt) = y" by (simp add: x_def)
  have w: "DayWithinYear x = monthStart m l + dt - 1"
    by (simp add: DayWithinYear_def y) (simp add: x)
  have mo: "MonthFromDay x = m"
    unfolding MonthFromDay_def Let_def w y l_def [symmetric]
    using cases assms(3,4) l unfolding dm by (elim disjE) (auto simp add: monthStart_def)
  then show "MonthFromDay (MakeDay y m dt) = m" by (simp add: x_def)
  show "DateFromDay (MakeDay y m dt) = dt"
    unfolding x_def [symmetric] DateFromDay_def w mo y l_def [symmetric] by simp
qed

lemma MakeTime_range:
  assumes "0 \<le> h" "h < 24" "0 \<le> m" "m < 60"
  shows "0 \<le> MakeTime h m 0 0" and "MakeTime h m 0 0 < msPerDay"
  using assms by (simp_all add: MakeTime_def msPerDay_def)

lemma Day_MakeDate:
  assumes "0 \<le> t" and "t < msPerDay"
  shows "Day (MakeDate d t) = d" and "TimeWithinDay (MakeDate d t) = t"
proof -
  have e: "MakeDate d t = msPerDay * d + t" by (simp add: MakeDate_def mult.commute)
  show "Day (MakeDate d t) = d"
    unfolding Day_def by (rule int_div_pos_eq [OF e assms])
  show "TimeWithinDay (MakeDate d t) = t"
    unfolding TimeWithinDay_def by (rule int_mod_pos_eq [OF e assms])
qed

lemma MakeDate_Day: "MakeDate (Day t) (TimeWithinDay t) = t"
  by (simp add: MakeDate_def Day_def TimeWithinDay_def)

lemma TimeWithinDay_range: "0 \<le> TimeWithinDay t" "TimeWithinDay t < msPerDay"
  by (simp_all add: TimeWithinDay_def msPerDay_def)

lemma setDate_shift: "setDate t (getDate t + k) = MakeDate (Day t + k) (TimeWithinDay t)"
  by (simp add: setDate_def getDate_def getFullYear_def getMonth_def MakeDay_of_day)

lemma setDate_eq: "setDate t dt = MakeDate (Day t + (dt - getDate t)) (TimeWithinDay t)"
  using setDate_shift [of t "dt - getDate t"] by simp

lemma MakeDate_mono:
  assumes "0 \<le> t" "t < msPerDay" "0 \<le> u" "u < msPerDay"
  shows "MakeDate d t < MakeDate e u \<longleftrightarrow> d < e \<or> (d = e \<and> t < u)"
proof -
  have "d < e \<Longrightarrow> d * msPerDay + msPerDay \<le> e * msPerDay"
  proof -
    assume "d < e"
    then have "d + 1 \<le> e" by simp
    then have "(d + 1) * msPerDay \<le> e * msPerDay"
      by (rule mult_right_mono) (simp add: msPerDay_def)
    then show ?thesis by (simp add: distrib_right)
  qed
  moreover have "e < d \<Longrightarrow> e * msPerDay + msPerDay \<le> d * msPerDay"
  proof -
    assume "e < d"
    then have "e + 1 \<le> d" by simp
    then have "(e + 1) * msPerDay \<le> d * msPerDay"
      by (rule mult_right_mono) (simp add: msPerDay_def)
    then show ?thesis by (simp add: distrib_right)
  qed
  ultimately show ?thesis
    using assms unfolding MakeDate_def by (cases "d < e"; cases "e < d") auto
qed

section \<open>Properties of the schedule calculation\<close>

lemmas calendar_defs =
  local_time_def MakeDate_def MakeDay_def MakeTime_def DayFromYear_def InLeapYear_def
  DaysInYear_def monthStart_def msPerDay_def setHours_def setDate_def setMonth_def Day_def
  TimeWithinDay_def getDay_def getDate_def getMonth_def getFullYear_def YearFromDay_def
  MonthFromDay_def DateFromDay_def DayWithinYear_def Let_def

lemmas schedule_defs =
  calculateNextSchedule_def parseTime_def Number_def is_digit_def next_listed_day_def
  demo_daily_def demo_weekly_def demo_monthly_def time_of_day_def two_digits_def digit_char_def

lemma digit_value_nonneg:
  assumes "is_digit c"
  shows "(0::int) \<le> of_char c - 48"
  using assms by (auto simp add: is_digit_def)

lemma digits_value_nonneg:
  assumes "list_all is_digit str" and "(0::int) \<le> n"
  shows "0 \<le> foldl (\<lambda>n c. 10 * n + (of_char c - 48)) n str"
  using assms
proof (induction str arbitrary: n)
  case Nil
  then show ?case by simp
next
  case (Cons c str)
  from Cons.prems have "(0::int) \<le> 10 * n + (of_char c - 48)"
    using digit_value_nonneg [of c] by simp
  with Cons.IH Cons.prems(1) show ?case by simp
qed

lemma Number_nonneg: "Number str = Some n \<Longrightarrow> 0 \<le> n"
  using digits_value_nonneg [of str 0] by (auto simp add: Number_def split: if_splits)

lemma parseTime_nonneg:
  assumes "parseTime str = Some (h, m)"
  shows "0 \<le> h" and "0 \<le> m"
  using assms Number_nonneg
  by (auto simp add: parseTime_def split: list.splits option.splits)

lemma digit_char_digit:
  assumes "n < 10"
  shows "is_digit (digit_char n)" and "of_char (digit_char n) = 48 + int n"
    and "digit_char n \<noteq> CHR '':''"
proof -
  from assms have n: "n \<in> {0, 1, 2, 3, 4, 5, 6, 7, 8, 9}" by auto
  from n show "is_digit (digit_char n)"
    by (auto simp add: digit_char_def is_digit_def)
  from n show "of_char (digit_char n) = 48 + int n"
    by (auto simp add: digit_char_def)
  from n show "digit_char n \<noteq> CHR '':''"
    by (auto simp add: digit_char_def)
qed

lemma Number_two_digits:
  assumes "n < 100"
  shows "Number (two_digits n) = Some (int n)"
proof -
  have d: "n div 10 < 10" "n mod 10 < 10" using assms by simp_all
  have "10 * (n div 10) + n mod 10 = n" by simp
  then have v: "10 * int (n div 10) + int (n mod 10) = int n"
    by (metis of_nat_add of_nat_mult of_nat_numeral)
  from digit_char_digit(1,2) [OF d(1)] digit_char_digit(1,2) [OF d(2)] v show ?thesis
    by (simp add: Number_def two_digits_def)
qed

lemma split_time_of_day:
  assumes "h < 100" and "m < 100"
  shows "split (CHR '':'') (time_of_day h m) = [two_digits h, two_digits m]"
proof -
  have "h div 10 < 10" "h mod 10 < 10" "m div 10 < 10" "m mod 10 < 10"
    using assms by simp_all
  then show ?thesis
    by (simp add: time_of_day_def two_digits_def digit_char_digit(3))
qed

text \<open>
  What the code reads out of a time of day \<open>"HH:MM"\<close>: the hour and the minute it writes.
\<close>

lemma parseTime_time_of_day:
  assumes "h < 100" and "m < 100"
  shows "parseTime (time_of_day h m) = Some (int h, int m)"
  using assms by (simp add: parseTime_def split_time_of_day Number_two_digits)

lemma time_of_day_examples:
  "time_of_day 9 0 = ''09:00''" "time_of_day 9 30 = ''09:30''"
  "time_of_day 17 45 = ''17:45''" "time_of_day 0 5 = ''00:05''"
  by (simp_all add: time_of_day_def two_digits_def digit_char_def)

lemma calculateNextSchedule_daily:
  assumes "sched_type schedule = Daily" and "parseTime (sched_time schedule) = Some (h, m)"
  shows "calculateNextSchedule schedule now =
     Some (if setHours now h m 0 0 \<le> now
           then setDate (setHours now h m 0 0) (getDate (setHours now h m 0 0) + 1)
           else setHours now h m 0 0)"
  using assms by (simp add: calculateNextSchedule_def Let_def)

text \<open>
  The daily branch, given what the time string was read as.
\<close>

lemma daily_slot_of_parsed_time:
  assumes "sched_type schedule = Daily"
    and "parseTime (sched_time schedule) = Some (h, m)"
    and "h < 24" and "m < 60"
  shows "calculateNextSchedule schedule now =
       Some (if now < MakeDate (Day now) (MakeTime h m 0 0)
             then MakeDate (Day now) (MakeTime h m 0 0)
             else MakeDate (Day now + 1) (MakeTime h m 0 0))
     \<and> (\<exists>r. calculateNextSchedule schedule now = Some r \<and> now < r
            \<and> TimeWithinDay r = MakeTime h m 0 0
            \<and> (\<forall>x. now < x \<and> TimeWithinDay x = MakeTime h m 0 0 \<longrightarrow> r \<le> x))"
proof -
  define hm where "hm = MakeTime h m 0 0"
  define today where "today = MakeDate (Day now) hm"
  define tomorrow where "tomorrow = MakeDate (Day now + 1) hm"
  note nonneg = parseTime_nonneg [OF assms(2)]
  have hm: "0 \<le> hm" "hm < msPerDay"
    using MakeTime_range [OF nonneg(1) assms(3) nonneg(2) assms(4)] by (simp_all add: hm_def)
  have sh: "setHours now h m 0 0 = today"
    by (simp add: setHours_def today_def hm_def)
  have sd: "setDate today (getDate today + 1) = tomorrow"
    by (simp add: setDate_shift today_def tomorrow_def Day_MakeDate [OF hm])
  have r: "calculateNextSchedule schedule now = Some (if now < today then today else tomorrow)"
    unfolding calculateNextSchedule_daily [OF assms(1,2)] sh sd by auto
  have n: "now = MakeDate (Day now) (TimeWithinDay now)"
    by (simp add: MakeDate_Day)
  have lt: "today < tomorrow"
    unfolding today_def tomorrow_def by (simp add: MakeDate_mono [OF hm hm])
  have after: "now < tomorrow"
  proof -
    have "MakeDate (Day now) (TimeWithinDay now) < MakeDate (Day now + 1) hm"
      by (simp add: MakeDate_mono [OF TimeWithinDay_range hm])
    then show ?thesis by (simp add: MakeDate_Day tomorrow_def)
  qed
  have least: "(if now < today then today else tomorrow) \<le> x"
    if x: "now < x" "TimeWithinDay x = hm" for x
  proof -
    have xe: "x = MakeDate (Day x) hm"
      using MakeDate_Day [of x] x(2) by simp
    have "MakeDate (Day now) (TimeWithinDay now) < MakeDate (Day x) hm"
      using x(1) xe by (simp add: MakeDate_Day)
    then have d: "Day now < Day x \<or> (Day now = Day x \<and> TimeWithinDay now < hm)"
      by (simp add: MakeDate_mono [OF TimeWithinDay_range hm])
    show ?thesis
    proof (cases "now < today")
      case True
      have "\<not> MakeDate (Day x) hm < MakeDate (Day now) hm"
        using d by (auto simp add: MakeDate_mono [OF hm hm])
      with True xe show ?thesis by (simp add: today_def)
    next
      case False
      then have "\<not> MakeDate (Day now) (TimeWithinDay now) < MakeDate (Day now) hm"
        by (simp add: MakeDate_Day today_def)
      then have "\<not> TimeWithinDay now < hm"
        by (simp add: MakeDate_mono [OF TimeWithinDay_range hm])
      with d have "Day now < Day x" by auto
      then have "\<not> MakeDate (Day x) hm < MakeDate (Day now + 1) hm"
        by (auto simp add: MakeDate_mono [OF hm hm])
      with False xe show ?thesis by (simp add: tomorrow_def)
    qed
  qed
  have tw: "TimeWithinDay (if now < today then today else tomorrow) = hm"
    by (simp add: today_def tomorrow_def Day_MakeDate [OF hm])
  have fut: "now < (if now < today then today else tomorrow)"
    using after by simp
  from r tw fut least show ?thesis
    unfolding hm_def [symmetric] today_def [symmetric] tomorrow_def [symmetric]
    by (intro conjI exI [of _ "if now < today then today else tomorrow"]) auto
qed

text \<open>
  C4. For every daily schedule whose time of day is the string \<open>"HH:MM"\<close> of an hour \<open>h\<close>
  below 24 and a minute \<open>m\<close> below 60, and every instant \<open>now\<close>, \<open>calculateNextSchedule\<close>
  returns today's \<open>h:m\<close> when \<open>now\<close> is before it and tomorrow's \<open>h:m\<close> otherwise; the
  result is strictly after \<open>now\<close>, its time of day is \<open>h\<close> hours and \<open>m\<close> minutes, and no
  instant at that time of day lies between \<open>now\<close> and the result.
\<close>

theorem daily_next_occurrence:
  assumes "sched_type schedule = Daily"
    and "sched_time schedule = time_of_day h m"
    and "h < 24" and "m < 60"
  shows "calculateNextSchedule schedule now =
       Some (if now < MakeDate (Day now) (MakeTime (int h) (int m) 0 0)
             then MakeDate (Day now) (MakeTime (int h) (int m) 0 0)
             else MakeDate (Day now + 1) (MakeTime (int h) (int m) 0 0))
     \<and> (\<exists>r. calculateNextSchedule schedule now = Some r \<and> now < r
            \<and> TimeWithinDay r = MakeTime (int h) (int m) 0 0
            \<and> (\<forall>x. now < x \<and> TimeWithinDay x = MakeTime (int h) (int m) 0 0 \<longrightarrow> r \<le> x))"
proof -
  from assms(3,4) have "h < 100" and "m < 100" by simp_all
  then have "parseTime (sched_time schedule) = Some (int h, int m)"
    unfolding assms(2) by (rule parseTime_time_of_day)
  moreover from assms(3,4) have "int h < 24" and "int m < 60" by simp_all
  ultimately show ?thesis
    using assms(1) by (intro daily_slot_of_parsed_time)
qed

text \<open>
  The example of the specification (09:00, read at 08:00 and at 10:00 of 2 November 2026),
  and a schedule at 17:45: read one minute before the slot, at the slot itself, on the last
  day of a month and, for 00:05, in the last minute of a year.
\<close>

theorem daily_next_occurrence_witness:
  "calculateNextSchedule (demo_daily ''09:00'') (local_time 2026 10 2 8 0)
       = Some (local_time 2026 10 2 9 0)
   \<and> calculateNextSchedule (demo_daily ''09:00'') (local_time 2026 10 2 10 0)
       = Some (local_time 2026 10 3 9 0)
   \<and> calculateNextSchedule (demo_daily ''17:45'') (local_time 2026 10 2 17 44)
       = Some (local_time 2026 10 2 17 45)
   \<and> calculateNextSchedule (demo_daily ''17:45'') (local_time 2026 10 2 17 45)
       = Some (local_time 2026 10 3 17 45)
   \<and> calculateNextSchedule (demo_daily ''17:45'') (local_time 2026 10 30 18 0)
       = Some (local_time 2026 11 1 17 45)
   \<and> calculateNextSchedule (demo_daily ''00:05'') (local_time 2026 11 31 23 59)
       = Some (local_time 2027 0 1 0 5)"
proof -
  have morning: "sched_type (demo_daily ''09:00'') = Daily"
    "sched_time (demo_daily ''09:00'') = time_of_day 9 0" "(9::nat) < 24" "(0::nat) < 60"
    by (simp_all add: demo_daily_def time_of_day_def two_digits_def digit_char_def)
  have evening: "sched_type (demo_daily ''17:45'') = Daily"
    "sched_time (demo_daily ''17:45'') = time_of_day 17 45" "(17::nat) < 24" "(45::nat) < 60"
    by (simp_all add: demo_daily_def time_of_day_def two_digits_def digit_char_def)
  have midnight: "sched_type (demo_daily ''00:05'') = Daily"
    "sched_time (demo_daily ''00:05'') = time_of_day 0 5" "(0::nat) < 24" "(5::nat) < 60"
    by (simp_all add: demo_daily_def time_of_day_def two_digits_def digit_char_def)
  have d: "Day (local_time 2026 10 2 8 0) = 20759" "Day (local_time 2026 10 2 10 0) = 20759"
    "Day (local_time 2026 10 2 17 44) = 20759" "Day (local_time 2026 10 2 17 45) = 20759"
    "Day (local_time 2026 10 30 18 0) = 20787" "Day (local_time 2026 11 31 23 59) = 20818"
    by (simp_all add: calendar_defs)
  have e: "MakeDate 20759 (MakeTime 9 0 0 0) = local_time 2026 10 2 9 0"
    "MakeDate 20760 (MakeTime 9 0 0 0) = local_time 2026 10 3 9 0"
    "MakeDate 20759 (MakeTime 17 45 0 0) = local_time 2026 10 2 17 45"
    "MakeDate 20760 (MakeTime 17 45 0 0) = local_time 2026 10 3 17 45"
    "MakeDate 20787 (MakeTime 17 45 0 0) = local_time 2026 10 30 17 45"
    "MakeDate 20788 (MakeTime 17 45 0 0) = local_time 2026 11 1 17 45"
    "MakeDate 20818 (MakeTime 0 5 0 0) = local_time 2026 11 31 0 5"
    "MakeDate 20819 (MakeTime 0 5 0 0) = local_time 2027 0 1 0 5"
    by (simp_all add: calendar_defs)
  have v: "local_time 2026 10 2 8 0 < local_time 2026 10 2 9 0"
    "\<not> local_time 2026 10 2 10 0 < local_time 2026 10 2 9 0"
    "local_time 2026 10 2 17 44 < local_time 2026 10 2 17 45"
    "\<not> local_time 2026 10 30 18 0 < local_time 2026 10 30 17 45"
    "\<not> local_time 2026 11 31 23 59 < local_time 2026 11 31 0 5"
    by (simp_all add: calendar_defs)
  from daily_next_occurrence [OF morning, of "local_time 2026 10 2 8 0"]
  have a1: "calculateNextSchedule (demo_daily ''09:00'') (local_time 2026 10 2 8 0)
       = Some (local_time 2026 10 2 9 0)"
    by (simp add: d e v)
  from daily_next_occurrence [OF morning, of "local_time 2026 10 2 10 0"]
  have a2: "calculateNextSchedule (demo_daily ''09:00'') (local_time 2026 10 2 10 0)
       = Some (local_time 2026 10 3 9 0)"
    by (simp add: d e v)
  from daily_next_occurrence [OF evening, of "local_time 2026 10 2 17 44"]
  have a3: "calculateNextSchedule (demo_daily ''17:45'') (local_time 2026 10 2 17 44)
       = Some (local_time 2026 10 2 17 45)"
    by (simp add: d e v)
  from daily_next_occurrence [OF evening, of "local_time 2026 10 2 17 45"]
  have a4: "calculateNextSchedule (demo_daily ''17:45'') (local_time 2026 10 2 17 45)
       = Some (local_time 2026 10 3 17 45)"
    by (simp add: d e v)
  from daily_next_occurrence [OF evening, of "local_time 2026 10 30 18 0"]
  have a5: "calculateNextSchedule (demo_daily ''17:45'') (local_time 2026 10 30 18 0)
       = Some (local_time 2026 11 1 17 45)"
    by (simp add: d e v)
  from daily_next_occurrence [OF midnight, of "local_time 2026 11 31 23 59"]
  have a6: "calculateNextSchedule (demo_daily ''00:05'') (local_time 2026 11 31 23 59)
       = Some (local_time 2027 0 1 0 5)"
    by (simp add: d e v)
  from a1 a2 a3 a4 a5 a6 show ?thesis by (intro conjI)
qed

lemma demo_weekly_fields:
  "parseTime (sched_time demo_weekly) = Some (7, 0)"
  "sched_type demo_weekly = Weekly" "days demo_weekly = Some [1, 3, 5]"
  by (simp_all add: schedule_defs)

lemma weekly_examples:
  "getDay (local_time 2026 10 3 6 0) = 2
   \<and> calculateNextSchedule demo_weekly (local_time 2026 10 3 6 0)
       = Some (local_time 2026 10 4 7 0)
   \<and> getDay (local_time 2026 10 6 8 0) = 5
   \<and> calculateNextSchedule demo_weekly (local_time 2026 10 6 8 0)
       = Some (local_time 2026 10 9 7 0)"
proof -
  have tue: "getDay (local_time 2026 10 3 6 0) = 2"
    "setHours (local_time 2026 10 3 6 0) 7 0 0 0 = local_time 2026 10 3 7 0"
    "getDate (local_time 2026 10 3 7 0) = 3"
    "setDate (local_time 2026 10 3 7 0) 4 = local_time 2026 10 4 7 0"
    by (simp_all add: calendar_defs)
  have fri: "getDay (local_time 2026 10 6 8 0) = 5"
    "setHours (local_time 2026 10 6 8 0) 7 0 0 0 = local_time 2026 10 6 7 0"
    "local_time 2026 10 6 7 0 \<le> local_time 2026 10 6 8 0"
    "getDate (local_time 2026 10 6 7 0) = 6"
    "setDate (local_time 2026 10 6 7 0) 9 = local_time 2026 10 9 7 0"
    by (simp_all add: calendar_defs)
  have a: "calculateNextSchedule demo_weekly (local_time 2026 10 3 6 0)
       = Some (local_time 2026 10 4 7 0)"
    unfolding calculateNextSchedule_def demo_weekly_fields
    by (simp add: tue next_listed_day_def Let_def)
  have b: "calculateNextSchedule demo_weekly (local_time 2026 10 6 8 0)
       = Some (local_time 2026 10 9 7 0)"
    unfolding calculateNextSchedule_def demo_weekly_fields
    by (simp add: fri next_listed_day_def Let_def)
  from tue fri a b show ?thesis by simp
qed

theorem weekly_returns_unlisted_day:
  "getDay (local_time 2026 10 7 6 0) = 6
   \<and> calculateNextSchedule demo_weekly (local_time 2026 10 7 6 0)
       = Some (local_time 2026 10 7 7 0)
   \<and> getDay (local_time 2026 10 7 7 0) = 6
   \<and> getDay (local_time 2026 10 2 6 0) = 1
   \<and> calculateNextSchedule demo_weekly (local_time 2026 10 2 6 0)
       = Some (local_time 2026 10 4 7 0)
   \<and> local_time 2026 10 2 6 0 < local_time 2026 10 2 7 0
   \<and> local_time 2026 10 2 7 0 < local_time 2026 10 4 7 0"
proof -
  have sat: "getDay (local_time 2026 10 7 6 0) = 6"
    "setHours (local_time 2026 10 7 6 0) 7 0 0 0 = local_time 2026 10 7 7 0"
    "\<not> local_time 2026 10 7 7 0 \<le> local_time 2026 10 7 6 0"
    "getDay (local_time 2026 10 7 7 0) = 6"
    by (simp_all add: calendar_defs)
  have mon: "getDay (local_time 2026 10 2 6 0) = 1"
    "setHours (local_time 2026 10 2 6 0) 7 0 0 0 = local_time 2026 10 2 7 0"
    "getDate (local_time 2026 10 2 7 0) = 2"
    "setDate (local_time 2026 10 2 7 0) 4 = local_time 2026 10 4 7 0"
    "local_time 2026 10 2 6 0 < local_time 2026 10 2 7 0"
    "local_time 2026 10 2 7 0 < local_time 2026 10 4 7 0"
    by (simp_all add: calendar_defs)
  have a: "calculateNextSchedule demo_weekly (local_time 2026 10 7 6 0)
       = Some (local_time 2026 10 7 7 0)"
    unfolding calculateNextSchedule_def demo_weekly_fields
    by (simp add: sat next_listed_day_def Let_def)
  have b: "calculateNextSchedule demo_weekly (local_time 2026 10 2 6 0)
       = Some (local_time 2026 10 4 7 0)"
    unfolding calculateNextSchedule_def demo_weekly_fields
    by (simp add: mon next_listed_day_def Let_def)
  from sat mon a b show ?thesis by simp
qed

lemma find_first_greater:
  assumes "sorted ds" and "d \<in> set ds" and "c < d" and "\<forall>x\<in>set ds. c < x \<longrightarrow> d \<le> x"
  shows "find (\<lambda>day. day > c) ds = Some (d::int)"
  using assms
proof (induction ds)
  case Nil
  then show ?case by simp
next
  case (Cons a ds)
  show ?case
  proof (cases "c < a")
    case True
    with Cons.prems(4) have "d \<le> a" by simp
    moreover from Cons.prems(1,2) have "a \<le> d" by auto
    ultimately show ?thesis using True by simp
  next
    case False
    with Cons.prems(2,3) have "d \<in> set ds" by auto
    with Cons.IH Cons.prems False show ?thesis by simp
  qed
qed

lemma find_none_greater:
  assumes "\<forall>x\<in>set ds. x \<le> c"
  shows "find (\<lambda>day. day > c) ds = (None :: int option)"
  using assms by (induction ds) auto

lemma next_listed_day_later:
  assumes "sorted ds" and "d \<in> set ds" and "c < d" and "\<forall>x\<in>set ds. c < x \<longrightarrow> d \<le> x"
    and "d \<noteq> 0"
  shows "next_listed_day ds c = d"
  using find_first_greater [OF assms(1-4)] assms(5) by (simp add: next_listed_day_def)

lemma next_listed_day_none:
  assumes "\<forall>x\<in>set ds. x \<le> c"
  shows "next_listed_day ds c = hd ds"
  using find_none_greater [OF assms] by (simp add: next_listed_day_def)

lemma calculateNextSchedule_monthly:
  assumes "sched_type schedule = Monthly" and "parseTime (sched_time schedule) = Some (h, m)"
    and "days schedule = Some ds" and "ds \<noteq> []"
  shows "calculateNextSchedule schedule now =
     Some (if next_listed_day ds (getDate now) \<le> getDate now \<and> setHours now h m 0 0 \<le> now
           then setMonth (setHours now h m 0 0) (getMonth (setHours now h m 0 0) + 1)
                  (Some (next_listed_day ds (getDate now)))
           else if next_listed_day ds (getDate now) > getDate now
           then setDate (setHours now h m 0 0) (next_listed_day ds (getDate now))
           else if setHours now h m 0 0 \<le> now
           then setMonth (setHours now h m 0 0) (getMonth (setHours now h m 0 0) + 1) None
           else setHours now h m 0 0)"
  using assms by (simp add: calculateNextSchedule_def Let_def)

lemma overflow_into_next_month:
  assumes "0 \<le> mo" and "mo \<le> 11" and "DaysInMonth y mo < d" and "d \<le> 31"
  shows "mo < 11" and "MakeDay y mo d = MakeDay y (mo + 1) (d - DaysInMonth y mo)"
    and "1 \<le> d - DaysInMonth y mo" and "d - DaysInMonth y mo \<le> DaysInMonth y (mo + 1)"
proof -
  have l: "InLeapYear y = 0 \<or> InLeapYear y = 1" by (rule InLeapYear_range)
  from assms(1,2) have cases: "mo = 0 \<or> mo = 1 \<or> mo = 2 \<or> mo = 3 \<or> mo = 4 \<or> mo = 5
      \<or> mo = 6 \<or> mo = 7 \<or> mo = 8 \<or> mo = 9 \<or> mo = 10 \<or> mo = 11" by arith
  show "mo < 11"
    using cases assms(3,4) by (elim disjE) (simp_all add: DaysInMonth_def)
  show "MakeDay y mo d = MakeDay y (mo + 1) (d - DaysInMonth y mo)"
    using MakeDay_next_month [OF assms(1,2), of y "d - DaysInMonth y mo"] assms(1,2)
    by (simp add: MakeDay_in_range)
  show "1 \<le> d - DaysInMonth y mo" using assms(3) by simp
  show "d - DaysInMonth y mo \<le> DaysInMonth y (mo + 1)"
    using cases assms(3,4) l by (elim disjE) (auto simp add: DaysInMonth_def)
qed

text \<open>
  The civil date of the day \<open>MakeDay y mo d\<close> for a month \<open>mo\<close> of the year and a date
  between 1 and 31: the date itself when the month is long enough, and otherwise the date
  less the month's length in the month that follows.
\<close>

lemma civil_of_overflowing_MakeDay:
  assumes "0 \<le> mo" and "mo \<le> 11" and "1 \<le> d" and "d \<le> 31"
  shows "if d \<le> DaysInMonth y mo
         then MonthFromDay (MakeDay y mo d) = mo \<and> DateFromDay (MakeDay y mo d) = d
         else MonthFromDay (MakeDay y mo d) = mo + 1
              \<and> DateFromDay (MakeDay y mo d) = d - DaysInMonth y mo"
proof (cases "d \<le> DaysInMonth y mo")
  case True
  with civil_of_MakeDay [OF assms(1,2,3)] show ?thesis by simp
next
  case False
  then have o: "DaysInMonth y mo < d" by simp
  note ov = overflow_into_next_month [OF assms(1,2) o assms(4)]
  have "0 \<le> mo + 1" "mo + 1 \<le> 11" using assms(1) ov(1) by simp_all
  from civil_of_MakeDay [OF this ov(3,4)] ov(2) False show ?thesis by simp
qed

text \<open>
  The monthly branch, given what the time string was read as, for an ascending list of
  days within 1..31.
\<close>

lemma monthly_slot_of_parsed_time:
  assumes monthly: "sched_type schedule = Monthly"
    and parsed: "parseTime (sched_time schedule) = Some (h, m)"
    and hour: "h < 24" and minute: "m < 60"
    and listed: "days schedule = Some ds" and nonempty: "ds \<noteq> []" and ascending: "sorted ds"
    and within: "\<forall>x\<in>set ds. 1 \<le> x \<and> x \<le> 31"
  shows
    "(\<forall>d. d \<in> set ds \<and> getDate now < d \<and> (\<forall>x\<in>set ds. getDate now < x \<longrightarrow> d \<le> x)
          \<and> (getDate now \<notin> set ds \<or> MakeDate (Day now) (MakeTime h m 0 0) \<le> now) \<longrightarrow>
        (\<exists>r. calculateNextSchedule schedule now = Some r \<and> now < r
           \<and> TimeWithinDay r = MakeTime h m 0 0
           \<and> Day r = MakeDay (getFullYear now) (getMonth now) d
           \<and> Day r = Day now + (d - getDate now)
           \<and> (if d \<le> DaysInMonth (getFullYear now) (getMonth now)
               then getMonth r = getMonth now \<and> getDate r = d
               else getMonth r = getMonth now + 1
                    \<and> getDate r = d - DaysInMonth (getFullYear now) (getMonth now))))
     \<and> ((\<forall>x\<in>set ds. x \<le> getDate now) \<and> MakeDate (Day now) (MakeTime h m 0 0) \<le> now \<longrightarrow>
        (\<exists>r. calculateNextSchedule schedule now = Some r \<and> now < r
           \<and> TimeWithinDay r = MakeTime h m 0 0
           \<and> (\<forall>x\<in>set ds. hd ds \<le> x)
           \<and> Day r = MakeDay (getFullYear now) (getMonth now + 1) (hd ds)
           \<and> (if hd ds \<le> DaysInMonth (if getMonth now = 11 then getFullYear now + 1
                                         else getFullYear now)
                                        (if getMonth now = 11 then 0 else getMonth now + 1)
               then getMonth r = (if getMonth now = 11 then 0 else getMonth now + 1)
                    \<and> getDate r = hd ds
               else getMonth r = (if getMonth now = 11 then 0 else getMonth now + 1) + 1
                    \<and> getDate r
                        = hd ds - DaysInMonth (if getMonth now = 11 then getFullYear now + 1
                                               else getFullYear now)
                                              (if getMonth now = 11 then 0 else getMonth now + 1))))
     \<and> (getDate now \<in> set ds \<and> (\<forall>x\<in>set ds. x \<le> getDate now)
          \<and> now < MakeDate (Day now) (MakeTime h m 0 0) \<longrightarrow>
        calculateNextSchedule schedule now = Some (MakeDate (Day now) (MakeTime h m 0 0)))"
proof -
  define hm where "hm = MakeTime h m 0 0"
  define today where "today = MakeDate (Day now) hm"
  define Y where "Y = getFullYear now"
  define M where "M = getMonth now"
  define D where "D = getDate now"
  note nonneg = parseTime_nonneg [OF parsed]
  have hm: "0 \<le> hm" "hm < msPerDay"
    using MakeTime_range [OF nonneg(1) hour nonneg(2) minute] by (simp_all add: hm_def)
  have sh: "setHours now h m 0 0 = today"
    by (simp add: setHours_def today_def hm_def)
  have td: "Day today = Day now" "TimeWithinDay today = hm"
    by (simp_all add: today_def Day_MakeDate [OF hm])
  have tf: "getFullYear today = Y" "getMonth today = M" "getDate today = D"
    by (simp_all add: getFullYear_def getMonth_def getDate_def td Y_def M_def D_def)
  have M: "0 \<le> M" "M \<le> 11"
    using MonthFromDay_range [of "Day now"] by (simp_all add: M_def getMonth_def)
  have D: "1 \<le> D" "D \<le> DaysInMonth Y M"
    using DateFromDay_range [of "Day now"]
    by (simp_all add: D_def Y_def M_def getDate_def getFullYear_def getMonth_def)
  have first: "MakeDay Y M k = Day now + (k - D)" for k
    using MakeDay_of_day [of "Day now" "k - D"]
    by (simp add: Y_def M_def D_def getFullYear_def getMonth_def getDate_def)
  note calc = calculateNextSchedule_monthly [OF monthly parsed listed nonempty, of now, unfolded sh tf,
      folded D_def]
  have later: "now < MakeDate e hm" if "Day now < e" for e
  proof -
    have "MakeDate (Day now) (TimeWithinDay now) < MakeDate e hm"
      using that by (simp add: MakeDate_mono [OF TimeWithinDay_range hm])
    then show ?thesis by (simp add: MakeDate_Day)
  qed
  have civil: "getMonth (MakeDate e hm) = MonthFromDay e" "getDate (MakeDate e hm) = DateFromDay e"
    "Day (MakeDate e hm) = e" "TimeWithinDay (MakeDate e hm) = hm" for e
    by (simp_all add: getMonth_def getDate_def Day_MakeDate [OF hm])
  have a: "\<exists>r. calculateNextSchedule schedule now = Some r \<and> now < r
           \<and> TimeWithinDay r = hm \<and> Day r = MakeDay Y M d \<and> Day r = Day now + (d - D)
           \<and> (if d \<le> DaysInMonth Y M then getMonth r = M \<and> getDate r = d
               else getMonth r = M + 1 \<and> getDate r = d - DaysInMonth Y M)"
    if d: "d \<in> set ds" "D < d" "\<forall>x\<in>set ds. D < x \<longrightarrow> d \<le> x" for d
  proof -
    from d(1) within have dr: "1 \<le> d" "d \<le> 31" by auto
    then have "d \<noteq> 0" by simp
    from next_listed_day_later [OF ascending d this]
    have nd: "next_listed_day ds D = d" .
    have r: "calculateNextSchedule schedule now = Some (MakeDate (MakeDay Y M d) hm)"
      unfolding calc nd using d(2) by (simp add: setDate_def tf td)
    have "now < MakeDate (MakeDay Y M d) hm"
      using d(2) by (intro later) (simp add: first)
    moreover have "if d \<le> DaysInMonth Y M
        then MonthFromDay (MakeDay Y M d) = M \<and> DateFromDay (MakeDay Y M d) = d
        else MonthFromDay (MakeDay Y M d) = M + 1
             \<and> DateFromDay (MakeDay Y M d) = d - DaysInMonth Y M"
      by (rule civil_of_overflowing_MakeDay [OF M dr])
    ultimately show ?thesis
      using r unfolding first [of d]
      by (intro exI [of _ "MakeDate (Day now + (d - D)) hm"])
        (simp add: civil split: if_splits)
  qed
  have b: "\<exists>r. calculateNextSchedule schedule now = Some r \<and> now < r
           \<and> TimeWithinDay r = hm \<and> (\<forall>x\<in>set ds. hd ds \<le> x)
           \<and> Day r = MakeDay Y (M + 1) (hd ds)
           \<and> (if hd ds \<le> DaysInMonth (if M = 11 then Y + 1 else Y) (if M = 11 then 0 else M + 1)
               then getMonth r = (if M = 11 then 0 else M + 1) \<and> getDate r = hd ds
               else getMonth r = (if M = 11 then 0 else M + 1) + 1
                    \<and> getDate r = hd ds - DaysInMonth (if M = 11 then Y + 1 else Y)
                                                  (if M = 11 then 0 else M + 1))"
    if n: "\<forall>x\<in>set ds. x \<le> D" "today \<le> now"
  proof -
    define ny where "ny = (if M = 11 then Y + 1 else Y)"
    define nm where "nm = (if M = 11 then 0 else M + 1)"
    from nonempty have h0: "hd ds \<in> set ds" by simp
    with within n(1) have hr: "1 \<le> hd ds" "hd ds \<le> 31" "hd ds \<le> D" by auto
    have least: "\<forall>x\<in>set ds. hd ds \<le> x"
      using nonempty ascending by (cases ds) auto
    have nd: "next_listed_day ds D = hd ds"
      by (rule next_listed_day_none [OF n(1)])
    have r: "calculateNextSchedule schedule now = Some (MakeDate (MakeDay Y (M + 1) (hd ds)) hm)"
      unfolding calc nd using hr(3) n(2) by (simp add: setMonth_def tf td)
    have "MakeDay Y (M + 1) (hd ds) = Day now + (DaysInMonth Y M - D) + hd ds"
      using MakeDay_next_month [OF M, of Y "hd ds"] first [of 1] by simp
    with hr(1) D(2) have "Day now < MakeDay Y (M + 1) (hd ds)" by simp
    then have fut: "now < MakeDate (MakeDay Y (M + 1) (hd ds)) hm" by (rule later)
    have carry: "MakeDay Y (M + 1) (hd ds) = MakeDay ny nm (hd ds)"
      by (simp add: ny_def nm_def MakeDay_def Let_def)
    have nm: "0 \<le> nm" "nm \<le> 11" using M by (simp_all add: nm_def)
    have "if hd ds \<le> DaysInMonth ny nm
        then MonthFromDay (MakeDay ny nm (hd ds)) = nm \<and> DateFromDay (MakeDay ny nm (hd ds)) = hd ds
        else MonthFromDay (MakeDay ny nm (hd ds)) = nm + 1
             \<and> DateFromDay (MakeDay ny nm (hd ds)) = hd ds - DaysInMonth ny nm"
      by (rule civil_of_overflowing_MakeDay [OF nm hr(1,2)])
    with r fut least show ?thesis
      unfolding ny_def [symmetric] nm_def [symmetric] carry
      by (intro exI [of _ "MakeDate (MakeDay ny nm (hd ds)) hm"])
        (simp add: civil split: if_splits)
  qed
  have c: "calculateNextSchedule schedule now = Some today"
    if n: "\<forall>x\<in>set ds. x \<le> D" "now < today"
  proof -
    from nonempty n(1) have "hd ds \<le> D" by simp
    then show ?thesis
      unfolding calc next_listed_day_none [OF n(1)] using n(2) by simp
  qed
  from a b c show ?thesis
    unfolding hm_def [symmetric] today_def [symmetric] Y_def [symmetric] M_def [symmetric]
      D_def [symmetric]
    by blast
qed

lemma instant_of_day_and_time:
  assumes "Day r = MakeDay y mo d" and "TimeWithinDay r = MakeTime hh mm 0 0"
  shows "r = local_time y mo d hh mm"
  using MakeDate_Day [of r] assms by (simp add: local_time_def)

text \<open>
  C5, as the code has it. For every monthly schedule whose time of day is the string
  \<open>"HH:MM"\<close> of an hour \<open>h\<close> below 24 and a minute \<open>m\<close> below 60 and whose days are a
  non-empty ascending list within 1..31, and every instant \<open>now\<close>:
  \<^item> if some listed day is greater than today's day of the month, and today's day is not
    listed or today's \<open>h:m\<close> has passed, the result is \<open>h:m\<close> on the least such day \<open>d\<close>,
    counted from the first of the current month;
  \<^item> if no listed day is greater than today's day of the month and today's \<open>h:m\<close> has
    passed, the result is \<open>h:m\<close> on the least listed day, counted from the first of the next
    month;
  \<^item> if today's day is listed, no listed day is greater and today's \<open>h:m\<close> is still ahead,
    the result is today's \<open>h:m\<close>.
  The result is after \<open>now\<close>. The date is not clamped: a day beyond the length of the month
  it is counted in falls into the month that follows, on the day less that length.
\<close>

theorem monthly_next_occurrence_unclamped:
  assumes monthly: "sched_type schedule = Monthly"
    and written: "sched_time schedule = time_of_day h m"
    and hour: "h < 24" and minute: "m < 60"
    and listed: "days schedule = Some ds" and nonempty: "ds \<noteq> []" and ascending: "sorted ds"
    and within: "\<forall>x\<in>set ds. 1 \<le> x \<and> x \<le> 31"
  shows
    "(\<forall>d. d \<in> set ds \<and> getDate now < d \<and> (\<forall>x\<in>set ds. getDate now < x \<longrightarrow> d \<le> x)
          \<and> (getDate now \<notin> set ds
              \<or> MakeDate (Day now) (MakeTime (int h) (int m) 0 0) \<le> now) \<longrightarrow>
        (\<exists>r. calculateNextSchedule schedule now = Some r \<and> now < r
           \<and> TimeWithinDay r = MakeTime (int h) (int m) 0 0
           \<and> Day r = MakeDay (getFullYear now) (getMonth now) d
           \<and> Day r = Day now + (d - getDate now)
           \<and> (if d \<le> DaysInMonth (getFullYear now) (getMonth now)
               then getMonth r = getMonth now \<and> getDate r = d
               else getMonth r = getMonth now + 1
                    \<and> getDate r = d - DaysInMonth (getFullYear now) (getMonth now))))
     \<and> ((\<forall>x\<in>set ds. x \<le> getDate now)
          \<and> MakeDate (Day now) (MakeTime (int h) (int m) 0 0) \<le> now \<longrightarrow>
        (\<exists>r. calculateNextSchedule schedule now = Some r \<and> now < r
           \<and> TimeWithinDay r = MakeTime (int h) (int m) 0 0
           \<and> (\<forall>x\<in>set ds. hd ds \<le> x)
           \<and> Day r = MakeDay (getFullYear now) (getMonth now + 1) (hd ds)
           \<and> (if hd ds \<le> DaysInMonth (if getMonth now = 11 then getFullYear now + 1
                                         else getFullYear now)
                                        (if getMonth now = 11 then 0 else getMonth now + 1)
               then getMonth r = (if getMonth now = 11 then 0 else getMonth now + 1)
                    \<and> getDate r = hd ds
               else getMonth r = (if getMonth now = 11 then 0 else getMonth now + 1) + 1
                    \<and> getDate r
                        = hd ds - DaysInMonth (if getMonth now = 11 then getFullYear now + 1
                                               else getFullYear now)
                                              (if getMonth now = 11 then 0 else getMonth now + 1))))
     \<and> (getDate now \<in> set ds \<and> (\<forall>x\<in>set ds. x \<le> getDate now)
          \<and> now < MakeDate (Day now) (MakeTime (int h) (int m) 0 0) \<longrightarrow>
        calculateNextSchedule schedule now
          = Some (MakeDate (Day now) (MakeTime (int h) (int m) 0 0)))"
proof -
  from hour minute have "h < 100" and "m < 100" by simp_all
  then have read: "parseTime (sched_time schedule) = Some (int h, int m)"
    unfolding written by (rule parseTime_time_of_day)
  from hour minute have "int h < 24" and "int m < 60" by simp_all
  from monthly_slot_of_parsed_time [OF monthly read this listed nonempty ascending within]
  show ?thesis .
qed

text \<open>
  A schedule at 18:45 on the 5th, the 15th and the 31st, read in 2026 on 10 April at 08:00
  (the 15th is the least listed day ahead), on 15 April at 19:00 (the 31st, counted in
  April, is 1 May), on 31 January at 19:00 and at 08:00, and on 31 December at 19:00; and a
  schedule at 09:30 on the 31st, read on 31 January at 10:00 (the 31st, counted in
  February, is 3 March).
\<close>

theorem monthly_next_occurrence_unclamped_witness:
  "calculateNextSchedule (demo_monthly ''18:45'' [5, 15, 31]) (local_time 2026 3 10 8 0)
       = Some (local_time 2026 3 15 18 45)
   \<and> calculateNextSchedule (demo_monthly ''18:45'' [5, 15, 31]) (local_time 2026 3 15 19 0)
       = Some (local_time 2026 4 1 18 45)
   \<and> calculateNextSchedule (demo_monthly ''18:45'' [5, 15, 31]) (local_time 2026 0 31 19 0)
       = Some (local_time 2026 1 5 18 45)
   \<and> calculateNextSchedule (demo_monthly ''18:45'' [5, 15, 31]) (local_time 2026 0 31 8 0)
       = Some (local_time 2026 0 31 18 45)
   \<and> calculateNextSchedule (demo_monthly ''18:45'' [5, 15, 31]) (local_time 2026 11 31 19 0)
       = Some (local_time 2027 0 5 18 45)
   \<and> calculateNextSchedule (demo_monthly ''09:30'' [31]) (local_time 2026 0 31 10 0)
       = Some (local_time 2026 2 3 9 30)"
proof -
  have three: "sched_type (demo_monthly ''18:45'' [5, 15, 31]) = Monthly"
    "sched_time (demo_monthly ''18:45'' [5, 15, 31]) = time_of_day 18 45"
    "(18::nat) < 24" "(45::nat) < 60"
    "days (demo_monthly ''18:45'' [5, 15, 31]) = Some [5, 15, 31]"
    "[5, 15, 31::int] \<noteq> []" "sorted [5, 15, 31::int]"
    "\<forall>x\<in>set [5, 15, 31::int]. 1 \<le> x \<and> x \<le> 31"
    by (simp_all add: demo_monthly_def time_of_day_def two_digits_def digit_char_def)
  have one: "sched_type (demo_monthly ''09:30'' [31]) = Monthly"
    "sched_time (demo_monthly ''09:30'' [31]) = time_of_day 9 30"
    "(9::nat) < 24" "(30::nat) < 60"
    "days (demo_monthly ''09:30'' [31]) = Some [31]"
    "[31::int] \<noteq> []" "sorted [31::int]"
    "\<forall>x\<in>set [31::int]. 1 \<le> x \<and> x \<le> 31"
    by (simp_all add: demo_monthly_def time_of_day_def two_digits_def digit_char_def)
  note t = monthly_next_occurrence_unclamped [OF three]
  note u = monthly_next_occurrence_unclamped [OF one]
  have apr10: "getDate (local_time 2026 3 10 8 0) = 10" "getMonth (local_time 2026 3 10 8 0) = 3"
    "getFullYear (local_time 2026 3 10 8 0) = 2026" "DaysInMonth 2026 3 = 30"
    by (simp_all add: calendar_defs DaysInMonth_def)
  have apr15: "getDate (local_time 2026 3 15 19 0) = 15" "getMonth (local_time 2026 3 15 19 0) = 3"
    "getFullYear (local_time 2026 3 15 19 0) = 2026"
    "MakeDate (Day (local_time 2026 3 15 19 0)) (MakeTime 18 45 0 0) \<le> local_time 2026 3 15 19 0"
    "local_time 2026 3 31 18 45 = local_time 2026 4 1 18 45"
    by (simp_all add: calendar_defs)
  have jan31e: "getDate (local_time 2026 0 31 19 0) = 31" "getMonth (local_time 2026 0 31 19 0) = 0"
    "getFullYear (local_time 2026 0 31 19 0) = 2026" "DaysInMonth 2026 1 = 28"
    "MakeDate (Day (local_time 2026 0 31 19 0)) (MakeTime 18 45 0 0) \<le> local_time 2026 0 31 19 0"
    by (simp_all add: calendar_defs DaysInMonth_def)
  have jan31m: "getDate (local_time 2026 0 31 8 0) = 31"
    "local_time 2026 0 31 8 0 < MakeDate (Day (local_time 2026 0 31 8 0)) (MakeTime 18 45 0 0)"
    "MakeDate (Day (local_time 2026 0 31 8 0)) (MakeTime 18 45 0 0) = local_time 2026 0 31 18 45"
    "local_time 2026 0 31 8 0 < local_time 2026 0 31 18 45"
    by (simp_all add: calendar_defs)
  have dec31: "getDate (local_time 2026 11 31 19 0) = 31" "getMonth (local_time 2026 11 31 19 0) = 11"
    "getFullYear (local_time 2026 11 31 19 0) = 2026" "DaysInMonth 2027 0 = 31"
    "MakeDate (Day (local_time 2026 11 31 19 0)) (MakeTime 18 45 0 0) \<le> local_time 2026 11 31 19 0"
    "local_time 2026 12 5 18 45 = local_time 2027 0 5 18 45"
    by (simp_all add: calendar_defs DaysInMonth_def)
  have jan31: "getDate (local_time 2026 0 31 10 0) = 31" "getMonth (local_time 2026 0 31 10 0) = 0"
    "getFullYear (local_time 2026 0 31 10 0) = 2026"
    "MakeDate (Day (local_time 2026 0 31 10 0)) (MakeTime 9 30 0 0) \<le> local_time 2026 0 31 10 0"
    "local_time 2026 1 31 9 30 = local_time 2026 2 3 9 30"
    by (simp_all add: calendar_defs)
  from t [of "local_time 2026 3 10 8 0", THEN conjunct1, rule_format, of 15]
  have "\<exists>r. calculateNextSchedule (demo_monthly ''18:45'' [5, 15, 31]) (local_time 2026 3 10 8 0)
          = Some r \<and> Day r = MakeDay 2026 3 15 \<and> TimeWithinDay r = MakeTime 18 45 0 0"
    by (simp add: apr10) blast
  then have a: "calculateNextSchedule (demo_monthly ''18:45'' [5, 15, 31])
      (local_time 2026 3 10 8 0) = Some (local_time 2026 3 15 18 45)"
    using instant_of_day_and_time by blast
  from t [of "local_time 2026 3 15 19 0", THEN conjunct1, rule_format, of 31]
  have "\<exists>r. calculateNextSchedule (demo_monthly ''18:45'' [5, 15, 31]) (local_time 2026 3 15 19 0)
          = Some r \<and> Day r = MakeDay 2026 3 31 \<and> TimeWithinDay r = MakeTime 18 45 0 0"
    by (simp add: apr15 apr10(4)) blast
  then have "calculateNextSchedule (demo_monthly ''18:45'' [5, 15, 31])
      (local_time 2026 3 15 19 0) = Some (local_time 2026 3 31 18 45)"
    using instant_of_day_and_time by blast
  then have b: "calculateNextSchedule (demo_monthly ''18:45'' [5, 15, 31])
      (local_time 2026 3 15 19 0) = Some (local_time 2026 4 1 18 45)"
    by (simp only: apr15(5))
  from t [of "local_time 2026 0 31 19 0", THEN conjunct2, THEN conjunct1, rule_format]
  have "\<exists>r. calculateNextSchedule (demo_monthly ''18:45'' [5, 15, 31]) (local_time 2026 0 31 19 0)
          = Some r \<and> Day r = MakeDay 2026 1 5 \<and> TimeWithinDay r = MakeTime 18 45 0 0"
    by (simp add: jan31e) blast
  then have c: "calculateNextSchedule (demo_monthly ''18:45'' [5, 15, 31])
      (local_time 2026 0 31 19 0) = Some (local_time 2026 1 5 18 45)"
    using instant_of_day_and_time by blast
  from t [of "local_time 2026 0 31 8 0", THEN conjunct2, THEN conjunct2, rule_format]
  have d: "calculateNextSchedule (demo_monthly ''18:45'' [5, 15, 31])
      (local_time 2026 0 31 8 0) = Some (local_time 2026 0 31 18 45)"
    by (simp add: jan31m)
  from t [of "local_time 2026 11 31 19 0", THEN conjunct2, THEN conjunct1, rule_format]
  have "\<exists>r. calculateNextSchedule (demo_monthly ''18:45'' [5, 15, 31]) (local_time 2026 11 31 19 0)
          = Some r \<and> Day r = MakeDay 2026 12 5 \<and> TimeWithinDay r = MakeTime 18 45 0 0"
    by (simp add: dec31) blast
  then have "calculateNextSchedule (demo_monthly ''18:45'' [5, 15, 31])
      (local_time 2026 11 31 19 0) = Some (local_time 2026 12 5 18 45)"
    using instant_of_day_and_time by blast
  then have e: "calculateNextSchedule (demo_monthly ''18:45'' [5, 15, 31])
      (local_time 2026 11 31 19 0) = Some (local_time 2027 0 5 18 45)"
    by (simp only: dec31(6))
  from u [of "local_time 2026 0 31 10 0", THEN conjunct2, THEN conjunct1, rule_format]
  have "\<exists>r. calculateNextSchedule (demo_monthly ''09:30'' [31]) (local_time 2026 0 31 10 0)
          = Some r \<and> Day r = MakeDay 2026 1 31 \<and> TimeWithinDay r = MakeTime 9 30 0 0"
    by (simp add: jan31 jan31e(4)) blast
  then have "calculateNextSchedule (demo_monthly ''09:30'' [31])
      (local_time 2026 0 31 10 0) = Some (local_time 2026 1 31 9 30)"
    using instant_of_day_and_time by blast
  then have f: "calculateNextSchedule (demo_monthly ''09:30'' [31])
      (local_time 2026 0 31 10 0) = Some (local_time 2026 2 3 9 30)"
    by (simp only: jan31(5))
  from a b c d e f show ?thesis by (intro conjI)
qed

text \<open>
  C5 as stated fails. For the 31st at 09:30 and \<open>now\<close> = 10 April 2026 at
  08:00, the date 31 April runs over into the next month: the result is 1 May at 09:30,
  whose day of the month is not listed.
\<close>

theorem monthly_overflow_counterexample:
  "getMonth (local_time 2026 3 10 8 0) = 3
   \<and> getDate (local_time 2026 3 10 8 0) = 10
   \<and> calculateNextSchedule (demo_monthly ''09:30'' [31]) (local_time 2026 3 10 8 0)
       = Some (local_time 2026 4 1 9 30)
   \<and> getMonth (local_time 2026 4 1 9 30) = 4
   \<and> getDate (local_time 2026 4 1 9 30) = 1
   \<and> 1 \<notin> set [31 :: int]"
proof -
  have p: "parseTime (sched_time (demo_monthly ''09:30'' [31])) = Some (9, 30)"
    "sched_type (demo_monthly ''09:30'' [31]) = Monthly"
    "days (demo_monthly ''09:30'' [31]) = Some [31]"
    by (simp_all add: schedule_defs)
  have n: "setHours (local_time 2026 3 10 8 0) 9 30 0 0 = local_time 2026 3 10 9 30"
    "\<not> local_time 2026 3 10 9 30 \<le> local_time 2026 3 10 8 0"
    "getDate (local_time 2026 3 10 8 0) = 10"
    "getMonth (local_time 2026 3 10 8 0) = 3"
    "setDate (local_time 2026 3 10 9 30) 31 = local_time 2026 4 1 9 30"
    "getMonth (local_time 2026 4 1 9 30) = 4"
    "getDate (local_time 2026 4 1 9 30) = 1"
    by (simp_all add: calendar_defs)
  have c: "calculateNextSchedule (demo_monthly ''09:30'' [31]) (local_time 2026 3 10 8 0)
       = Some (local_time 2026 4 1 9 30)"
    unfolding calculateNextSchedule_def p by (simp add: n next_listed_day_def Let_def)
  from n c show ?thesis by simp
qed

section \<open>Properties of the template rendering\<close>

lemmas render_defs =
  processTemplate_def variables_def replace_all_def demo_template_def demo_named_def
  demo_render_env_def demo_rule_def empty_service_def

lemma demo_amounts:
  "toFixed2 (251 / 2) = ''125.50''" "show_nat 1 = ''1''"
proof -
  have n: "nat \<lfloor>\<bar>251 / 2 :: rat\<bar> * 100 + 1 / 2\<rfloor> = 12550" by code_simp
  have s: "show_nat 12550 = ''12550''" by (simp add: show_nat.simps)
  show "toFixed2 (251 / 2) = ''125.50''"
    unfolding toFixed2_def n by (simp add: s)
  show "show_nat 1 = ''1''" by (simp add: show_nat.simps)
qed

text \<open>
  The example of the specification: the total is rendered with two decimals, and a
  placeholder that is not one of the six stays as it is.
\<close>

lemma processTemplate_examples:
  "processTemplate (empty_service\<lparr>templates := [demo_template ''Total: ${total_amount}'']\<rparr>)
     ''template_1'' (demo_named ''Large gift'') demo_render_env = Inr ''Total: $125.50''"
  "processTemplate (empty_service\<lparr>templates := [demo_template ''{unknown} by {rule_name}'']\<rparr>)
     ''template_1'' (demo_named ''Large gift'') demo_render_env
     = Inr ''{unknown} by Large gift''"
  by (simp_all add: render_defs demo_amounts replace_from.simps)

text \<open>
  C8 on the code. The value of a placeholder is passed to \<open>String.prototype.replace\<close> as a
  replacement string, in which \<open>$$\<close> stands for one dollar sign: a rule named
  \<open>Top $$ donors\<close> is rendered as \<open>Top $ donors\<close>. The six placeholders are replaced one
  after the other in the message so far, so that a value which contains a later placeholder
  is itself rewritten: a rule named \<open>{timestamp}\<close> is rendered as the time.
\<close>

theorem processTemplate_rewrites_values:
  "processTemplate (empty_service\<lparr>templates := [demo_template ''Rule: {rule_name}'']\<rparr>)
     ''template_1'' (demo_named ''Top $$ donors'') demo_render_env = Inr ''Rule: Top $ donors''
   \<and> processTemplate (empty_service\<lparr>templates := [demo_template ''Rule: {rule_name}'']\<rparr>)
     ''template_1'' (demo_named ''{timestamp}'') demo_render_env
     = Inr ''Rule: 11/2/2026, 9:00:00 AM''"
  by (simp add: render_defs demo_amounts replace_from.simps)

end
